theory Spec2Isabelle
  imports Main
begin

section \<open>Strings as Python sees them\<close>

text \<open>
  Text is a \<open>string\<close>: a list of characters, each standing for the code point of the same
  number (0 to 255). The classes below are those of Python's \<open>str.isspace\<close> and
  \<open>str.splitlines\<close> restricted to that range.
\<close>

definition is_space :: "char \<Rightarrow> bool" where
  "is_space c = (c \<in> set [CHR 0x09, CHR 0x0A, CHR 0x0B, CHR 0x0C, CHR 0x0D,
                          CHR 0x1C, CHR 0x1D, CHR 0x1E, CHR 0x1F, CHR 0x20,
                          CHR 0x85, CHR 0xA0])"

definition is_linebreak :: "char \<Rightarrow> bool" where
  "is_linebreak c = (c \<in> set [CHR 0x0A, CHR 0x0B, CHR 0x0C, CHR 0x0D,
                              CHR 0x1C, CHR 0x1D, CHR 0x1E, CHR 0x85])"

text \<open>\<open>str.strip()\<close>: white space removed at both ends.\<close>

definition strip :: "string \<Rightarrow> string" where
  "strip s = rev (dropWhile is_space (rev (dropWhile is_space s)))"

text \<open>
  \<open>str.splitlines()\<close>: the text is cut at every line boundary, a carriage return followed
  by a line feed being one boundary; no empty last line is produced after a final boundary.
\<close>

fun splitlines_from :: "string \<Rightarrow> string \<Rightarrow> string list" where
  "splitlines_from cur [] = (if cur = [] then [] else [cur])"
| "splitlines_from cur [c] =
     (if is_linebreak c then [cur] else [cur @ [c]])"
| "splitlines_from cur (c # d # cs) =
     (if c = CHR 0x0D \<and> d = CHR 0x0A then cur # splitlines_from [] cs
      else if is_linebreak c then cur # splitlines_from [] (d # cs)
      else splitlines_from (cur @ [c]) (d # cs))"

definition splitlines :: "string \<Rightarrow> string list" where
  "splitlines s = splitlines_from [] s"

text \<open>
  \<open>': ' in line\<close> together with \<open>line.split(': ', 1)\<close>: the text before and the text after the
  first occurrence of colon-space, or \<open>None\<close> when there is none.
\<close>

fun split_sep :: "string \<Rightarrow> (string \<times> string) option" where
  "split_sep [] = None"
| "split_sep [c] = None"
| "split_sep (c # d # cs) =
     (if c = CHR 0x3A \<and> d = CHR 0x20 then Some ([], cs)
      else (case split_sep (d # cs) of
              None \<Rightarrow> None
            | Some (k, v) \<Rightarrow> Some (c # k, v)))"

section \<open>Package records: dictionaries in insertion order\<close>

text \<open>
  A Python \<open>dict\<close> iterates in insertion order, and assigning to a key that is present keeps
  the key where it is. A package record is therefore an association list.
\<close>

type_synonym package = "(string \<times> string) list"

datatype py_error =
    KeyError
  | TypeError
  | NameError
  | DecodeError
  | FileNotFoundError
  | FileExistsError
  | NotADirectoryError
  | IsADirectoryError
  | ConnectionError

fun dict_set :: "('k \<times> 'v) list \<Rightarrow> 'k \<Rightarrow> 'v \<Rightarrow> ('k \<times> 'v) list" where
  "dict_set [] k v = [(k, v)]"
| "dict_set ((k', v') # d) k v =
     (if k' = k then (k', v) # d else (k', v') # dict_set d k v)"

text \<open>\<open>d[k]\<close> read: raises \<open>KeyError\<close> on an absent key.\<close>

definition dict_item :: "package \<Rightarrow> string \<Rightarrow> py_error + string" where
  "dict_item d k = (case map_of d k of None \<Rightarrow> Inl KeyError | Some v \<Rightarrow> Inr v)"

text \<open>\<open>next(reversed(d), None)\<close>: the key inserted last, \<open>None\<close> for the empty dictionary.\<close>

definition last_key :: "package \<Rightarrow> string option" where
  "last_key d = (if d = [] then None else Some (fst (last d)))"

section \<open>\<open>PackageHandler.parse_packages_data\<close>\<close>

text \<open>
  The body of the loop for a line that is not blank once stripped. The test
  \<open>if last_key:\<close> is Python truthiness: it fails for \<open>None\<close> and for the empty string.
\<close>

definition apply_line :: "package \<Rightarrow> string \<Rightarrow> py_error + package" where
  "apply_line current line =
     (case split_sep line of
        Some (key, val) \<Rightarrow> Inr (dict_set current key val)
      | None \<Rightarrow>
          (case last_key current of
             None \<Rightarrow> Inr current
           | Some lk \<Rightarrow>
               if lk = [] then Inr current
               else (case dict_item current lk of
                       Inl e \<Rightarrow> Inl e
                     | Inr old \<Rightarrow> Inr (dict_set current lk (old @ '' '' @ line)))))"

fun parse_lines ::
  "string list \<Rightarrow> package list \<Rightarrow> package \<Rightarrow> py_error + (package list \<times> package)" where
  "parse_lines [] packages current = Inr (packages, current)"
| "parse_lines (raw # rest) packages current =
     (let line = strip raw in
      if line = [] then
        (if current \<noteq> [] then parse_lines rest (packages @ [current]) []
         else parse_lines rest packages current)
      else (case apply_line current line of
              Inl e \<Rightarrow> Inl e
            | Inr current' \<Rightarrow> parse_lines rest packages current'))"

definition parse_packages_data :: "string \<Rightarrow> py_error + package list" where
  "parse_packages_data data =
     (case parse_lines (splitlines data) [] [] of
        Inl e \<Rightarrow> Inl e
      | Inr (packages, current) \<Rightarrow>
          Inr (if current \<noteq> [] then packages @ [current] else packages))"

text \<open>\<open>dict.get(k)\<close> rendered in an f-string: an absent key gives \<open>None\<close>, printed as such.\<close>

definition fmt_get :: "package \<Rightarrow> string \<Rightarrow> string" where
  "fmt_get d k = (case map_of d k of None \<Rightarrow> ''None'' | Some v \<Rightarrow> v)"

section \<open>Paths and the local file system\<close>

definition is_slash :: "char \<Rightarrow> bool" where
  "is_slash c = (c = CHR 0x2F)"

text \<open>\<open>os.path.dirname\<close> of \<open>posixpath\<close>.\<close>

definition path_head :: "string \<Rightarrow> string" where
  "path_head p = rev (dropWhile (\<lambda>c. \<not> is_slash c) (rev p))"

definition dirname :: "string \<Rightarrow> string" where
  "dirname p =
     (let head = path_head p in
      if head \<noteq> [] \<and> \<not> list_all is_slash head
      then rev (dropWhile is_slash (rev head)) else head)"

text \<open>The directories above a path: \<open>dirname\<close> iterated until it is empty or stops moving.\<close>

function ancestors :: "string \<Rightarrow> string list" where
  "ancestors p =
     (let d = dirname p in if d = [] \<or> length p \<le> length d then [] else d # ancestors d)"
  by pat_completeness auto
termination
  by (relation "measure length") auto

declare ancestors.simps [simp del]

definition endswith :: "string \<Rightarrow> string \<Rightarrow> bool" where
  "endswith s suf = (length suf \<le> length s \<and> drop (length s - length suf) s = suf)"

text \<open>\<open>p.split('/')\<close>: the components between the slashes.\<close>

fun path_parts :: "string \<Rightarrow> string list" where
  "path_parts [] = [[]]"
| "path_parts (c # cs) =
     (let rest = path_parts cs in
      if is_slash c then [] # rest else (c # hd rest) # tl rest)"

text \<open>
  The node that a path names: the names on the way from the root, found by going through
  the components of the path from the root, or from the working directory for a path that
  does not start with a slash. An empty component and \<open>.\<close> stay where they are, \<open>..\<close> goes
  up one name. There are no links, and \<open>..\<close> is taken by name, as \<open>os.path.normpath\<close>
  takes it.
\<close>

definition step :: "string list \<Rightarrow> string \<Rightarrow> string list" where
  "step cur c =
     (if c = [] \<or> c = ''.'' then cur else if c = ''..'' then butlast cur else cur @ [c])"

definition node_of :: "string list \<Rightarrow> string \<Rightarrow> string list" where
  "node_of wd p =
     foldl step (if p \<noteq> [] \<and> is_slash (hd p) then [] else wd) (path_parts p)"

text \<open>A path that ends in a slash, in \<open>.\<close> or in \<open>..\<close> can only name a directory.\<close>

definition ends_in_name :: "string \<Rightarrow> bool" where
  "ends_in_name p = (last (path_parts p) \<notin> set [[], ''.'', ''..''])"

definition at_or_above :: "string list \<Rightarrow> string list \<Rightarrow> bool" where
  "at_or_above n m = (take (length n) m = n)"

definition strictly_above :: "string list \<Rightarrow> string list \<Rightarrow> bool" where
  "strictly_above n m = (length n < length m \<and> take (length n) m = n)"

text \<open>
  The file system is a flat table: the regular files with their contents, in the order in
  which a listing yields them, the directories made explicitly, and the working directory
  (a node). A file or directory is entered under a path and lies at the node that path
  names. A directory exists when it was made, when something lies below it, when it is the
  root, and when it is the working directory or lies above it.
\<close>

record filesystem =
  files :: "(string \<times> string) list"
  dirs :: "string list"
  cwd :: "string list"

definition file_nodes :: "filesystem \<Rightarrow> string list list" where
  "file_nodes f = map (\<lambda>e. node_of (cwd f) (fst e)) (files f)"

definition dir_nodes :: "filesystem \<Rightarrow> string list list" where
  "dir_nodes f = map (node_of (cwd f)) (dirs f)"

definition isfile :: "filesystem \<Rightarrow> string \<Rightarrow> bool" where
  "isfile f p = (ends_in_name p \<and> node_of (cwd f) p \<in> set (file_nodes f))"

definition isdir :: "filesystem \<Rightarrow> string \<Rightarrow> bool" where
  "isdir f p =
     (p \<noteq> [] \<and>
      (let n = node_of (cwd f) p
       in n = [] \<or> list_ex (strictly_above n) (file_nodes f) \<or>
          list_ex (at_or_above n) (dir_nodes f @ [cwd f])))"

definition path_exists :: "filesystem \<Rightarrow> string \<Rightarrow> bool" where
  "path_exists f p = (isfile f p \<or> isdir f p)"

text \<open>The content of the regular file that a path names.\<close>

definition read_file :: "filesystem \<Rightarrow> string \<Rightarrow> string option" where
  "read_file f p =
     (if isfile f p
      then map_of (zip (file_nodes f) (map snd (files f))) (node_of (cwd f) p)
      else None)"

text \<open>
  \<open>os.makedirs(name, exist_ok=True)\<close>: fails on the empty name and when the name or a
  directory above it is a regular file; otherwise the directory and all above it exist.
\<close>

definition makedirs :: "filesystem \<Rightarrow> string \<Rightarrow> py_error + filesystem" where
  "makedirs f name =
     (if name = [] then Inl FileNotFoundError
      else if list_ex (isfile f) (name # ancestors name)
      then Inl (if isfile f name then FileExistsError else NotADirectoryError)
      else Inr (f\<lparr>dirs := dirs f @ [name]\<rparr>))"

text \<open>
  \<open>open(p, 'wb')\<close> followed by the writes. It fails on the empty path, on a directory, below
  a regular file, in a directory that is missing (the empty directory name is the working
  directory), and on a path that can only name a directory. Otherwise the file at the node
  of \<open>p\<close> gets the content, a file that was not there being entered last.
\<close>

fun set_content ::
  "string list \<Rightarrow> (string \<times> string) list \<Rightarrow> string \<Rightarrow> string \<Rightarrow> (string \<times> string) list" where
  "set_content wd [] p v = [(p, v)]"
| "set_content wd ((k, c) # es) p v =
     (if node_of wd k = node_of wd p then (k, v) # es else (k, c) # set_content wd es p v)"

definition write_file :: "filesystem \<Rightarrow> string \<Rightarrow> string \<Rightarrow> py_error + filesystem" where
  "write_file f p content =
     (if p = [] then Inl FileNotFoundError
      else if isdir f p then Inl IsADirectoryError
      else if dirname p \<noteq> [] \<and> \<not> isdir f (dirname p)
      then Inl (if list_ex (isfile f) (ancestors p) then NotADirectoryError
                else FileNotFoundError)
      else if \<not> ends_in_name p then Inl IsADirectoryError
      else Inr (f\<lparr>files := set_content (cwd f) (files f) p content\<rparr>))"

text \<open>
  \<open>os.remove\<close> inside the \<open>try\<close> of the deletion loops: every failure is caught and printed.
  The directory that held the file stays; it is entered under the path that goes up from
  the file.
\<close>

definition os_remove :: "filesystem \<Rightarrow> string \<Rightarrow> filesystem" where
  "os_remove f p =
     (if isfile f p
      then f\<lparr>files := filter (\<lambda>e. node_of (cwd f) (fst e) \<noteq> node_of (cwd f) p) (files f),
             dirs := dirs f @ [p @ ''/..'']\<rparr>
      else f)"

text \<open>
  \<open>shutil.rmtree\<close>: fails on a regular file and on a missing directory, else removes the
  directory and all below it; the directory that held it stays.
\<close>

definition rmtree :: "filesystem \<Rightarrow> string \<Rightarrow> py_error + filesystem" where
  "rmtree f d =
     (if isfile f d then Inl NotADirectoryError
      else if \<not> isdir f d then Inl FileNotFoundError
      else Inr (f\<lparr>files := filter (\<lambda>e. \<not> at_or_above (node_of (cwd f) d)
                                           (node_of (cwd f) (fst e))) (files f),
                  dirs := filter (\<lambda>k. \<not> at_or_above (node_of (cwd f) d) (node_of (cwd f) k))
                            (dirs f) @ [d @ ''/..'']\<rparr>))"

text \<open>\<open>os.path.join(folder, name)\<close> for a name without a slash.\<close>

definition path_join :: "string \<Rightarrow> string \<Rightarrow> string" where
  "path_join folder name =
     (if folder = [] \<or> is_slash (last folder) then folder @ name
      else folder @ ''/'' @ name)"

section \<open>What lies outside the program\<close>

text \<open>
  The answer of \<open>requests.get\<close> followed by reading the body: a response with its status and
  body, a response whose body breaks off after some bytes, or no connection at all.
\<close>

datatype fetch_outcome =
    Response nat string
  | StreamBroken nat string
  | ConnectFailed

text \<open>
  The remote server, the \<open>wget\<close> command (given the target prefix and the URL, it returns
  its exit status and the file system it leaves), \<open>os.walk\<close> flattened to the files it
  yields, and the decoders of \<open>lzma\<close>, \<open>gzip\<close> and text mode, which fail with \<open>None\<close>.
\<close>

record env =
  remote :: "string \<Rightarrow> fetch_outcome"
  wget :: "string \<Rightarrow> string \<Rightarrow> filesystem \<Rightarrow> nat \<times> filesystem"
  walk :: "filesystem \<Rightarrow> string \<Rightarrow> string list"
  lzma_decode :: "string \<Rightarrow> string option"
  gzip_decode :: "string \<Rightarrow> string option"
  text_decode :: "string \<Rightarrow> string option"

record world =
  fs :: filesystem
  requests_made :: "string list"
  syncs_made :: "string list"
  errors_logged :: "string list"

record args =
  proto :: string
  url :: string
  rootpath :: string
  inpath :: string
  distributions :: "string list"
  components :: "string list"
  architectures :: "string list"

section \<open>\<open>Downloader\<close>\<close>

record downloader =
  downloaded_files :: "string list"
  downloaded_count :: nat
  skipped_count :: nat

definition ensure_folder :: "filesystem \<Rightarrow> string \<Rightarrow> py_error + filesystem" where
  "ensure_folder f folder =
     (if \<not> path_exists f folder then makedirs f folder else Inr f)"

definition fetch_into ::
  "env \<Rightarrow> string \<Rightarrow> string \<Rightarrow> world \<Rightarrow> downloader \<Rightarrow> py_error option \<times> world \<times> downloader" where
  "fetch_into e path full_path w d =
     (let w1 = w\<lparr>requests_made := requests_made w @ [path]\<rparr> in
      case remote e path of
        ConnectFailed \<Rightarrow> (Some ConnectionError, w1, d)
      | Response status body \<Rightarrow>
          if 400 \<le> status \<and> status < 600 then
            (None,
             w1\<lparr>errors_logged := errors_logged w1 @
                  [if status = 404 then ''Failed to download the file''
                   else ''An error occurred'']\<rparr>,
             d)
          else (case write_file (fs w1) full_path body of
                  Inl err \<Rightarrow> (Some err, w1, d)
                | Inr f2 \<Rightarrow>
                    (None, w1\<lparr>fs := f2\<rparr>,
                     d\<lparr>downloaded_files := downloaded_files d @ [full_path],
                       downloaded_count := downloaded_count d + 1\<rparr>))
      | StreamBroken status part \<Rightarrow>
          if 400 \<le> status \<and> status < 600 then
            (None,
             w1\<lparr>errors_logged := errors_logged w1 @
                  [if status = 404 then ''Failed to download the file''
                   else ''An error occurred'']\<rparr>,
             d)
          else (case write_file (fs w1) full_path part of
                  Inl err \<Rightarrow> (Some err, w1, d)
                | Inr f2 \<Rightarrow> (Some ConnectionError, w1\<lparr>fs := f2\<rparr>, d)))"

definition download_file ::
  "env \<Rightarrow> string \<Rightarrow> string \<Rightarrow> bool \<Rightarrow> world \<Rightarrow> downloader \<Rightarrow>
   py_error option \<times> world \<times> downloader" where
  "download_file e path full_path overwrite w d =
     (case ensure_folder (fs w) (dirname full_path) of
        Inl err \<Rightarrow> (Some err, w, d)
      | Inr f1 \<Rightarrow>
          (let w1 = w\<lparr>fs := f1\<rparr> in
           if path_exists f1 full_path \<and> \<not> overwrite
           then (None, w1, d\<lparr>skipped_count := skipped_count d + 1\<rparr>)
           else fetch_into e path full_path w1 d))"

definition download_directory ::
  "env \<Rightarrow> args \<Rightarrow> string \<Rightarrow> world \<Rightarrow> downloader \<Rightarrow> world \<times> downloader" where
  "download_directory e a path w d =
     (let parsed_url = takeWhile (\<lambda>c. \<not> is_slash c) path;
          target = proto a @ ''://'' @ path;
          (code, f1) = wget e (rootpath a @ ''/'' @ parsed_url) target (fs w);
          w1 = w\<lparr>fs := f1, syncs_made := syncs_made w @ [target]\<rparr>
      in if code = 0
         then (w1, d\<lparr>downloaded_files :=
                       downloaded_files d @ walk e f1 (rootpath a @ ''/'' @ path)\<rparr>)
         else if code = 8 then (w1, d)
         else (w1\<lparr>errors_logged := errors_logged w1 @ [''An error occurred'']\<rparr>, d))"

section \<open>\<open>PackageHandler\<close> and \<open>FileManager\<close>\<close>

definition extract_file :: "env \<Rightarrow> filesystem \<Rightarrow> string \<Rightarrow> py_error + string" where
  "extract_file e f file_path =
     (case read_file f file_path of
        None \<Rightarrow> Inl (if isdir f file_path then IsADirectoryError else FileNotFoundError)
      | Some bytes \<Rightarrow>
          (case (if endswith file_path ''.xz'' then lzma_decode e bytes
                 else if endswith file_path ''.gz'' then gzip_decode e bytes
                 else text_decode e bytes) of
             None \<Rightarrow> Inl DecodeError
           | Some data \<Rightarrow> Inr data))"

definition is_packages_file :: "string \<Rightarrow> bool" where
  "is_packages_file file_path =
     (endswith file_path ''Packages'' \<or> endswith file_path ''Packages.xz'' \<or>
      endswith file_path ''Packages.gz'')"

text \<open>The result \<open>Inr None\<close> is Python's \<open>None\<close>: the loop ended without a \<open>return\<close>.\<close>

fun find_and_extract_packages ::
  "env \<Rightarrow> filesystem \<Rightarrow> string list \<Rightarrow> py_error + package list option" where
  "find_and_extract_packages e f [] = Inr None"
| "find_and_extract_packages e f (file_path # rest) =
     (if is_packages_file file_path then
        (case extract_file e f file_path of
           Inl err \<Rightarrow> Inl err
         | Inr data \<Rightarrow>
             (case parse_packages_data data of
                Inl err \<Rightarrow> Inl err
              | Inr packages \<Rightarrow> Inr (Some packages)))
      else find_and_extract_packages e f rest)"

text \<open>
  \<open>list_files_in_folder\<close>: the regular files directly inside the folder, each once and
  joined to the folder path as given. A folder that cannot be listed gives the empty list of the \<open>except\<close>
  branch.
\<close>

definition list_files_in_folder :: "filesystem \<Rightarrow> string \<Rightarrow> string list" where
  "list_files_in_folder f folder_path =
     (if \<not> isdir f folder_path then []
      else map (\<lambda>n. path_join folder_path (last n))
             (remdups (filter (\<lambda>n. n \<noteq> [] \<and> butlast n = node_of (cwd f) folder_path)
                         (file_nodes f))))"

section \<open>\<open>RepositoryManage.mirror_repository\<close>\<close>

text \<open>A submitted call of \<open>download_file\<close>: URL, destination, overwrite flag.\<close>

type_synonym task = "string \<times> string \<times> bool"

record plan_state =
  the_world :: world
  the_downloader :: downloader
  link_list :: "string list"
  futures :: "task list"

definition dist_path :: "args \<Rightarrow> string \<Rightarrow> string" where
  "dist_path a distribution = url a @ ''/'' @ inpath a @ ''/dists/'' @ distribution"

definition save_path :: "args \<Rightarrow> string \<Rightarrow> string \<Rightarrow> string \<Rightarrow> string" where
  "save_path a distribution component arch =
     rootpath a @ ''/'' @ dist_path a distribution @ ''/'' @ component @
     ''/binary-'' @ arch @ ''/''"

definition downloadlink :: "args \<Rightarrow> package \<Rightarrow> string" where
  "downloadlink a package =
     proto a @ ''://'' @ url a @ ''/'' @ inpath a @ ''/'' @ fmt_get package ''Filename''"

definition filesave :: "args \<Rightarrow> package \<Rightarrow> string" where
  "filesave a package =
     rootpath a @ ''/'' @ url a @ ''/'' @ inpath a @ ''/'' @ fmt_get package ''Filename''"

definition submit :: "task \<Rightarrow> plan_state \<Rightarrow> plan_state" where
  "submit t st = st\<lparr>futures := futures st @ [t]\<rparr>"

definition sync_dir :: "env \<Rightarrow> args \<Rightarrow> string \<Rightarrow> plan_state \<Rightarrow> plan_state" where
  "sync_dir e a path st =
     (let (w, d) = download_directory e a path (the_world st) (the_downloader st)
      in st\<lparr>the_world := w, the_downloader := d\<rparr>)"

text \<open>
  \<open>packages_info\<close> of one architecture, as both \<open>mirror_repository\<close> and
  \<open>remove_repository\<close> compute it; \<open>len(None)\<close> raises \<open>TypeError\<close>.
\<close>

definition packages_info ::
  "env \<Rightarrow> args \<Rightarrow> filesystem \<Rightarrow> string \<Rightarrow> string \<Rightarrow> string \<Rightarrow> py_error + package list" where
  "packages_info e a f distribution component arch =
     (let pack_files = list_files_in_folder f (save_path a distribution component arch) in
      case find_and_extract_packages e f pack_files of
        Inl err \<Rightarrow> Inl err
      | Inr None \<Rightarrow> Inl TypeError
      | Inr (Some packages) \<Rightarrow> Inr packages)"

definition release_tasks :: "args \<Rightarrow> string \<Rightarrow> task list" where
  "release_tasks a distribution =
     map (\<lambda>cert. (proto a @ ''://'' @ dist_path a distribution @ ''/'' @ cert,
                   rootpath a @ ''/'' @ dist_path a distribution @ ''/'' @ cert,
                   True))
       [''InRelease'', ''Release'', ''Release.gpg'']"

definition contents_task :: "args \<Rightarrow> string \<Rightarrow> string \<Rightarrow> string \<Rightarrow> task" where
  "contents_task a distribution component arch =
     (let common_path = dist_path a distribution @ ''/'' @ component @
                        ''/Contents-'' @ arch @ ''.gz''
      in (proto a @ ''://'' @ common_path, rootpath a @ ''/'' @ common_path, True))"

definition package_tasks :: "args \<Rightarrow> package list \<Rightarrow> task list" where
  "package_tasks a packages = map (\<lambda>package. (downloadlink a package, filesave a package, False)) packages"

text \<open>The state of one architecture once its task and its two directory syncs are issued.\<close>

definition arch_synced ::
  "env \<Rightarrow> args \<Rightarrow> string \<Rightarrow> string \<Rightarrow> string \<Rightarrow> plan_state \<Rightarrow> plan_state" where
  "arch_synced e a distribution component arch st =
     sync_dir e a (dist_path a distribution @ ''/'' @ component @
                   ''/debian-installer/binary-'' @ arch @ ''/'')
       (sync_dir e a (dist_path a distribution @ ''/'' @ component @
                      ''/binary-'' @ arch @ ''/'')
          (submit (contents_task a distribution component arch) st))"

definition mirror_arch ::
  "env \<Rightarrow> args \<Rightarrow> string \<Rightarrow> string \<Rightarrow> string \<Rightarrow> plan_state \<Rightarrow> py_error option \<times> plan_state" where
  "mirror_arch e a distribution component arch st =
     (let st1 = arch_synced e a distribution component arch st in
      case packages_info e a (fs (the_world st1)) distribution component arch of
        Inl err \<Rightarrow> (Some err, st1)
      | Inr packages \<Rightarrow>
          (None, st1\<lparr>link_list := link_list st1 @ map (filesave a) packages,
                     futures := futures st1 @ package_tasks a packages\<rparr>))"

fun mirror_archs ::
  "env \<Rightarrow> args \<Rightarrow> string \<Rightarrow> string \<Rightarrow> string list \<Rightarrow> plan_state \<Rightarrow>
   py_error option \<times> plan_state" where
  "mirror_archs e a distribution component [] st = (None, st)"
| "mirror_archs e a distribution component (arch # rest) st =
     (case mirror_arch e a distribution component arch st of
        (Some err, st1) \<Rightarrow> (Some err, st1)
      | (None, st1) \<Rightarrow> mirror_archs e a distribution component rest st1)"

definition mirror_component ::
  "env \<Rightarrow> args \<Rightarrow> string \<Rightarrow> string \<Rightarrow> plan_state \<Rightarrow> py_error option \<times> plan_state" where
  "mirror_component e a distribution component st =
     mirror_archs e a distribution component (architectures a)
       (sync_dir e a (dist_path a distribution @ ''/'' @ component @ ''/source/'')
          (sync_dir e a (dist_path a distribution @ ''/'' @ component @ ''/i18n/'') st))"

fun mirror_components ::
  "env \<Rightarrow> args \<Rightarrow> string \<Rightarrow> string list \<Rightarrow> plan_state \<Rightarrow> py_error option \<times> plan_state" where
  "mirror_components e a distribution [] st = (None, st)"
| "mirror_components e a distribution (component # rest) st =
     (case mirror_component e a distribution component st of
        (Some err, st1) \<Rightarrow> (Some err, st1)
      | (None, st1) \<Rightarrow> mirror_components e a distribution rest st1)"

definition mirror_distribution ::
  "env \<Rightarrow> args \<Rightarrow> string \<Rightarrow> plan_state \<Rightarrow> py_error option \<times> plan_state" where
  "mirror_distribution e a distribution st =
     mirror_components e a distribution (components a)
       (st\<lparr>futures := futures st @ release_tasks a distribution\<rparr>)"

fun mirror_distributions ::
  "env \<Rightarrow> args \<Rightarrow> string list \<Rightarrow> plan_state \<Rightarrow> py_error option \<times> plan_state" where
  "mirror_distributions e a [] st = (None, st)"
| "mirror_distributions e a (distribution # rest) st =
     (case mirror_distribution e a distribution st of
        (Some err, st1) \<Rightarrow> (Some err, st1)
      | (None, st1) \<Rightarrow> mirror_distributions e a rest st1)"

text \<open>
  The listing of the local tree taken at the start of \<open>mirror_repository\<close> only feeds
  a debug message and is left out. The worker pool, under one schedule: every submitted task runs when the pool is drained
  at the end of the \<open>with\<close> block, in the order of submission. An exception of a task stays
  in its future and the next task runs.
\<close>

fun run_tasks ::
  "env \<Rightarrow> task list \<Rightarrow> world \<Rightarrow> downloader \<Rightarrow> py_error option list \<times> world \<times> downloader" where
  "run_tasks e [] w d = ([], w, d)"
| "run_tasks e ((path, full_path, overwrite) # rest) w d =
     (case download_file e path full_path overwrite w d of
        (r, w1, d1) \<Rightarrow>
          (case run_tasks e rest w1 d1 of
             (rs, w2, d2) \<Rightarrow> (r # rs, w2, d2)))"

text \<open>
  \<open>future.result()\<close> over all futures raises the exception of a failed one; which one comes
  first depends on the order of completion, here the order of submission.
\<close>

fun first_error :: "py_error option list \<Rightarrow> py_error option" where
  "first_error [] = None"
| "first_error (None # rs) = first_error rs"
| "first_error (Some err # rs) = Some err"

record run_result =
  outcome :: "py_error option"
  final_world :: world
  final_downloader :: downloader
  final_links :: "string list"
  submitted :: "task list"
  task_results :: "py_error option list"

definition mirror_repository :: "env \<Rightarrow> args \<Rightarrow> world \<Rightarrow> downloader \<Rightarrow> run_result" where
  "mirror_repository e a w d =
     (case mirror_distributions e a (distributions a)
             \<lparr>the_world = w, the_downloader = d, link_list = [], futures = []\<rparr> of
        (planning, st) \<Rightarrow>
          (case run_tasks e (futures st) (the_world st) (the_downloader st) of
             (rs, w1, d1) \<Rightarrow>
               \<lparr>outcome = (case planning of Some err \<Rightarrow> Some err | None \<Rightarrow> first_error rs),
                final_world = w1,
                final_downloader = d1,
                final_links = (if planning = None \<and> first_error rs = None
                               then link_list st @ downloaded_files d1 else link_list st),
                submitted = futures st,
                task_results = rs\<rparr>))"

section \<open>\<open>RepositoryManage.remove_repository\<close>\<close>

definition remove_arch ::
  "env \<Rightarrow> args \<Rightarrow> filesystem \<Rightarrow> string \<Rightarrow> string \<Rightarrow> string \<Rightarrow> string list \<Rightarrow>
   py_error + string list" where
  "remove_arch e a f distribution component arch file_list =
     (case packages_info e a f distribution component arch of
        Inl err \<Rightarrow> Inl err
      | Inr packages \<Rightarrow> Inr (file_list @ map (filesave a) packages))"

fun remove_archs ::
  "env \<Rightarrow> args \<Rightarrow> filesystem \<Rightarrow> string \<Rightarrow> string \<Rightarrow> string list \<Rightarrow> string list \<Rightarrow>
   py_error + string list" where
  "remove_archs e a f distribution component [] file_list = Inr file_list"
| "remove_archs e a f distribution component (arch # rest) file_list =
     (case remove_arch e a f distribution component arch file_list of
        Inl err \<Rightarrow> Inl err
      | Inr file_list1 \<Rightarrow> remove_archs e a f distribution component rest file_list1)"

fun remove_components ::
  "env \<Rightarrow> args \<Rightarrow> filesystem \<Rightarrow> string \<Rightarrow> string list \<Rightarrow> string list \<Rightarrow>
   py_error + string list" where
  "remove_components e a f distribution [] file_list = Inr file_list"
| "remove_components e a f distribution (component # rest) file_list =
     (case remove_archs e a f distribution component (architectures a) file_list of
        Inl err \<Rightarrow> Inl err
      | Inr file_list1 \<Rightarrow> remove_components e a f distribution rest file_list1)"

fun remove_distributions ::
  "env \<Rightarrow> args \<Rightarrow> filesystem \<Rightarrow> string list \<Rightarrow> string list \<Rightarrow> py_error + string list" where
  "remove_distributions e a f [] file_list = Inr file_list"
| "remove_distributions e a f (distribution # rest) file_list =
     (case remove_components e a f distribution (components a) file_list of
        Inl err \<Rightarrow> Inl err
      | Inr file_list1 \<Rightarrow> remove_distributions e a f rest file_list1)"

text \<open>\<open>str.lower()\<close> on the code points below 256.\<close>

definition char_lower :: "char \<Rightarrow> char" where
  "char_lower c =
     (let n = (of_char c :: nat) in
      if (65 \<le> n \<and> n \<le> 90) \<or> (192 \<le> n \<and> n \<le> 222 \<and> n \<noteq> 215)
      then char_of (n + 32) else c)"

definition lower :: "string \<Rightarrow> string" where
  "lower s = map char_lower s"

text \<open>The answer read from the prompt, reduced to \<open>y\<close> or \<open>n\<close>.\<close>

definition read_answer :: "string \<Rightarrow> string" where
  "read_answer typed =
     (let user_input = lower (strip typed) in
      if user_input \<notin> set [''y'', ''n''] then ''n'' else user_input)"

text \<open>
  After the loops the variable \<open>distribution\<close> holds the last distribution; with no
  distribution at all it is unbound.
\<close>

definition delete_all :: "args \<Rightarrow> string list \<Rightarrow> world \<Rightarrow> py_error option \<times> world" where
  "delete_all a file_list w =
     (let f1 = foldl os_remove (fs w) file_list in
      if distributions a = [] then (Some NameError, w\<lparr>fs := f1\<rparr>)
      else (case rmtree f1 (rootpath a @ ''/'' @ dist_path a (last (distributions a))) of
              Inl err \<Rightarrow> (Some err, w\<lparr>fs := f1\<rparr>)
            | Inr f2 \<Rightarrow> (None, w\<lparr>fs := f2\<rparr>)))"

definition remove_repository ::
  "env \<Rightarrow> args \<Rightarrow> string \<Rightarrow> world \<Rightarrow> py_error option \<times> world" where
  "remove_repository e a typed w =
     (case remove_distributions e a (fs w) (distributions a) [] of
        Inl err \<Rightarrow> (Some err, w)
      | Inr file_list \<Rightarrow>
          if read_answer typed = ''y'' then delete_all a file_list w
          else (None, w))"

section \<open>Blocks of an index text\<close>

text \<open>
  The blank-line-delimited blocks of a text, as the format describes them: the maximal runs
  of lines that are not blank once stripped. \<open>record_of_block\<close> runs the loop body of the
  parser over one block, starting from an empty record. A text is well formed when each of
  its blocks has a line with the separator.
\<close>

fun blocks_from :: "string list \<Rightarrow> string list \<Rightarrow> string list list" where
  "blocks_from cur [] = (if cur = [] then [] else [cur])"
| "blocks_from cur (l # ls) =
     (if l = [] then (if cur = [] then blocks_from [] ls else cur # blocks_from [] ls)
      else blocks_from (cur @ [l]) ls)"

definition blocks :: "string \<Rightarrow> string list list" where
  "blocks data = blocks_from [] (map strip (splitlines data))"

fun record_from :: "package \<Rightarrow> string list \<Rightarrow> py_error + package" where
  "record_from current [] = Inr current"
| "record_from current (l # ls) =
     (case apply_line current l of Inl e \<Rightarrow> Inl e | Inr c \<Rightarrow> record_from c ls)"

definition record_of_block :: "string list \<Rightarrow> py_error + package" where
  "record_of_block b = record_from [] b"

definition has_key_line :: "string list \<Rightarrow> bool" where
  "has_key_line b = list_ex (\<lambda>l. split_sep l \<noteq> None) b"

definition well_formed :: "string \<Rightarrow> bool" where
  "well_formed data = list_all has_key_line (blocks data)"

definition flush :: "package list \<times> package \<Rightarrow> package list" where
  "flush pc = (if snd pc \<noteq> [] then fst pc @ [snd pc] else fst pc)"

section \<open>Comparing the plan of a mirror run with the plan of a removal\<close>

text \<open>
  Two file systems carry the same index files when \<open>packages_info\<close> reads the same from
  both. The destinations of the package tasks of a run are those of the tasks submitted
  with the overwrite flag off.
\<close>

definition same_index :: "env \<Rightarrow> args \<Rightarrow> filesystem \<Rightarrow> filesystem \<Rightarrow> bool" where
  "same_index e a f g = (\<forall>d c ar. packages_info e a f d c ar = packages_info e a g d c ar)"

definition package_destinations :: "task list \<Rightarrow> string list" where
  "package_destinations ts = map (\<lambda>t. fst (snd t)) (filter (\<lambda>t. \<not> snd (snd t)) ts)"

definition agree :: "env \<Rightarrow> args \<Rightarrow> filesystem \<Rightarrow> plan_state \<Rightarrow> string list \<Rightarrow> bool" where
  "agree e a f st fl =
     (same_index e a (fs (the_world st)) f \<and> link_list st = fl \<and>
      package_destinations (futures st) = fl)"

definition agrees ::
  "env \<Rightarrow> args \<Rightarrow> filesystem \<Rightarrow> py_error + string list \<Rightarrow> py_error option \<times> plan_state \<Rightarrow> bool" where
  "agrees e a f r m =
     (case r of Inl err \<Rightarrow> fst m = Some err
      | Inr fl \<Rightarrow> fst m = None \<and> agree e a f (snd m) fl)"

text \<open>A task whose destination has a directory part.\<close>

definition has_folder :: "task \<Rightarrow> bool" where
  "has_folder t = (dirname (fst (snd t)) \<noteq> [])"


section \<open>Small concrete inputs\<close>

text \<open>
  An environment whose server cannot be reached and one whose server answers 404 to
  everything; in both \<open>wget\<close> finds nothing (exit status 8) and the stream \<open>garbage\<close> is not
  valid LZMA. A third has a server whose answers break off after two bytes. In a fourth
  every directory sync leaves the local tree that consists of \<open>index_with_filename\<close>.
\<close>

definition offline_env :: env where
  "offline_env = \<lparr>remote = (\<lambda>u. ConnectFailed), wget = (\<lambda>p t f. (8, f)), walk = (\<lambda>f p. []),
                  lzma_decode = (\<lambda>b. if b = ''garbage'' then None else Some b),
                  gzip_decode = Some, text_decode = Some\<rparr>"

definition missing_env :: env where
  "missing_env = offline_env\<lparr>remote := (\<lambda>u. Response 404 [])\<rparr>"


definition small_args :: args where
  "small_args = \<lparr>proto = ''p'', url = ''u'', rootpath = ''r'', inpath = ''i'',
                 distributions = [''d''], components = [''c''], architectures = [''a'', ''b'']\<rparr>"

definition world_with :: "(string \<times> string) list \<Rightarrow> world" where
  "world_with fl = \<lparr>fs = \<lparr>files = fl, dirs = [], cwd = []\<rparr>, requests_made = [],
                     syncs_made = [], errors_logged = []\<rparr>"

definition fresh_downloader :: downloader where
  "fresh_downloader = \<lparr>downloaded_files = [], downloaded_count = 0, skipped_count = 0\<rparr>"

definition wide_args :: args where
  "wide_args = small_args\<lparr>distributions := [''d'', ''d2''], components := [''c'', ''c2'']\<rparr>"

definition one_arch_args :: args where
  "one_arch_args = small_args\<lparr>architectures := [''a'']\<rparr>"


definition start_state :: "world \<Rightarrow> plan_state" where
  "start_state w = \<lparr>the_world = w, the_downloader = fresh_downloader, link_list = [], futures = []\<rparr>"

definition example_text :: string where
  "example_text = ''Package: foo'' @ [CHR 0x0A] @ ''Version: 1.0'' @ [CHR 0x0A] @
                  '' continuation'' @ [CHR 0x0A, CHR 0x0A] @ ''Package: bar'' @ [CHR 0x0A]"

definition empty_key_text :: string where
  "empty_key_text = '': a'' @ [CHR 0x0A] @ ''b''"

definition index_with_filename :: "(string \<times> string) list" where
  "index_with_filename = [(''r/u/i/dists/d/c/binary-a/Packages'', ''Filename: pool/x.deb'')]"

definition resync_env :: env where
  "resync_env = missing_env\<lparr>wget := (\<lambda>p t f. (0, fs (world_with index_with_filename)))\<rparr>"

definition index_without_filename :: "(string \<times> string) list" where
  "index_without_filename = [(''r/u/i/dists/d/c/binary-a/Packages'', ''Package: foo'')]"

definition broken_index :: "(string \<times> string) list" where
  "broken_index = [(''r/u/i/dists/d/c/binary-a/Packages.xz'', ''garbage'')]"

definition half_broken_index :: "(string \<times> string) list" where
  "half_broken_index = [(''r/u/i/dists/d/c/binary-a/Packages'', ''Filename: pool/x.deb''),
                        (''r/u/i/dists/d/c/binary-b/Packages.xz'', ''garbage'')]"

section \<open>The parser\<close>

lemma dict_set_nonempty: "dict_set d k v \<noteq> []"
  by (cases d) (auto split: if_splits)

lemma dict_set_keys_present:
  "k \<in> fst ` set d \<Longrightarrow> map fst (dict_set d k v) = map fst d"
  by (induction d) force+

lemma dict_set_keys_absent:
  "k \<notin> fst ` set d \<Longrightarrow> dict_set d k v = d @ [(k, v)]"
  by (induction d) auto

lemma dict_set_lookup: "map_of (dict_set d k v) k = Some v"
  by (induction d) auto

lemma dict_set_lookup_other: "k' \<noteq> k \<Longrightarrow> map_of (dict_set d k v) k' = map_of d k'"
  by (induction d) auto

lemma last_key_present: "last_key d = Some k \<Longrightarrow> \<exists>v. map_of d k = Some v"
proof -
  assume a: "last_key d = Some k"
  then have ne: "d \<noteq> []" and k: "k = fst (last d)"
    by (auto simp: last_key_def split: if_splits)
  from ne have "last d \<in> set d" by simp
  then have "k \<in> fst ` set d" using k by force
  then show ?thesis by (metis map_of_eq_None_iff not_Some_eq)
qed

lemma apply_line_total: "\<exists>c. apply_line current line = Inr c"
proof (cases "split_sep line")
  case (Some kv)
  then show ?thesis by (cases kv) (simp add: apply_line_def)
next
  case None
  show ?thesis
  proof (cases "last_key current")
    case n: None
    with None show ?thesis by (simp add: apply_line_def)
  next
    case (Some lk)
    then obtain v where "map_of current lk = Some v" using last_key_present by blast
    with None Some show ?thesis by (simp add: apply_line_def dict_item_def)
  qed
qed

lemma apply_line_keeps_nonempty:
  "apply_line current line = Inr c \<Longrightarrow> current \<noteq> [] \<Longrightarrow> c \<noteq> []"
  by (auto simp: apply_line_def dict_set_nonempty split: option.splits if_splits sum.splits)

lemma apply_line_key_nonempty:
  "apply_line current line = Inr c \<Longrightarrow> split_sep line \<noteq> None \<Longrightarrow> c \<noteq> []"
  by (auto simp: apply_line_def dict_set_nonempty split: option.splits)

lemma record_from_total: "\<exists>c. record_from current b = Inr c"
proof (induction b arbitrary: current)
  case Nil
  then show ?case by simp
next
  case (Cons l ls)
  obtain c where "apply_line current l = Inr c" using apply_line_total by blast
  with Cons show ?case by simp
qed

lemma record_from_snoc:
  "record_from current b = Inr c \<Longrightarrow> record_from current (b @ [l]) = apply_line c l"
proof (induction b arbitrary: current)
  case Nil
  then show ?case by (simp split: sum.splits)
next
  case (Cons x xs)
  then show ?case by (auto split: sum.splits)
qed

lemma record_from_keeps_nonempty:
  "record_from current b = Inr c \<Longrightarrow> current \<noteq> [] \<Longrightarrow> c \<noteq> []"
proof (induction b arbitrary: current)
  case Nil
  then show ?case by simp
next
  case (Cons l ls)
  then show ?case by (auto split: sum.splits dest: apply_line_keeps_nonempty)
qed

lemma record_from_key_nonempty:
  "record_from current b = Inr c \<Longrightarrow> has_key_line b \<Longrightarrow> c \<noteq> []"
proof (induction b arbitrary: current)
  case Nil
  then show ?case by (simp add: has_key_line_def)
next
  case (Cons l ls)
  then obtain c1 where c1: "apply_line current l = Inr c1" and r: "record_from c1 ls = Inr c"
    by (auto split: sum.splits)
  show ?case
  proof (cases "split_sep l \<noteq> None")
    case True
    then have "c1 \<noteq> []" using c1 apply_line_key_nonempty by blast
    then show ?thesis using r record_from_keeps_nonempty by blast
  next
    case False
    then have "has_key_line ls" using Cons.prems(2) by (simp add: has_key_line_def)
    then show ?thesis using Cons.IH r by blast
  qed
qed

lemma parse_lines_blocks:
  "record_from [] cl = Inr current \<Longrightarrow>
   \<exists>pc. parse_lines ls packages current = Inr pc \<and>
        map Inr (flush pc) =
        map Inr packages @ filter (\<lambda>r. r \<noteq> Inr []) (map record_of_block (blocks_from cl (map strip ls)))"
proof (induction ls arbitrary: packages current cl)
  case Nil
  then show ?case by (auto simp: flush_def record_of_block_def)
next
  case (Cons raw rest)
  have rb: "record_of_block cl = Inr current" using Cons.prems by (simp add: record_of_block_def)
  show ?case
  proof (cases "strip raw = []")
    case True
    have e: "record_from [] [] = Inr []" by simp
    show ?thesis
    proof (cases "current = []")
      case c: True
      from Cons.IH[OF e, of packages] obtain pc where
        pc: "parse_lines rest packages [] = Inr pc"
          "map Inr (flush pc) = map Inr packages @ filter (\<lambda>r. r \<noteq> Inr []) (map record_of_block (blocks_from [] (map strip rest)))"
        by blast
      then show ?thesis using True c rb by auto
    next
      case c: False
      then have "cl \<noteq> []" using Cons.prems by auto
      from Cons.IH[OF e, of "packages @ [current]"] obtain pc where
        pc: "parse_lines rest (packages @ [current]) [] = Inr pc"
          "map Inr (flush pc) = map Inr (packages @ [current]) @ filter (\<lambda>r. r \<noteq> Inr []) (map record_of_block (blocks_from [] (map strip rest)))"
        by blast
      then show ?thesis using True c rb \<open>cl \<noteq> []\<close> by auto
    qed
  next
    case False
    obtain c where c: "apply_line current (strip raw) = Inr c" using apply_line_total by blast
    have "record_from [] (cl @ [strip raw]) = Inr c"
      using record_from_snoc[OF Cons.prems] c by simp
    from Cons.IH[OF this, of packages] show ?thesis using False c by simp
  qed
qed

lemma parse_packages_data_flush:
  "parse_packages_data data = (case parse_lines (splitlines data) [] [] of Inl e \<Rightarrow> Inl e | Inr pc \<Rightarrow> Inr (flush pc))"
  by (auto simp: parse_packages_data_def flush_def split: sum.splits prod.splits)

lemma parse_packages_data_filter:
  "\<exists>rs. parse_packages_data data = Inr rs \<and>
        map Inr rs = filter (\<lambda>r. r \<noteq> Inr []) (map record_of_block (blocks data))"
proof -
  have "record_from [] [] = Inr []" by simp
  from parse_lines_blocks[OF this, of "splitlines data" "[]"]
  show ?thesis by (auto simp: parse_packages_data_flush blocks_def)
qed

lemma parse_never_raises: "\<exists>rs. parse_packages_data data = Inr rs"
  using parse_packages_data_filter by blast

lemma well_formed_filter:
  "list_all has_key_line bs \<Longrightarrow> filter (\<lambda>r. r \<noteq> Inr []) (map record_of_block bs) = map record_of_block bs"
proof -
  assume a: "list_all has_key_line bs"
  have "\<forall>b \<in> set bs. record_of_block b \<noteq> Inr []"
  proof
    fix b assume "b \<in> set bs"
    then have "has_key_line b" using a by (simp add: list_all_iff)
    then show "record_of_block b \<noteq> Inr []"
      using record_from_key_nonempty[of "[]" b "[]"] by (auto simp: record_of_block_def)
  qed
  then show ?thesis by (simp add: filter_id_conv)
qed

lemma parse_well_formed:
  assumes "well_formed data"
  shows "\<exists>rs. parse_packages_data data = Inr rs \<and> length rs = length (blocks data) \<and>
           (\<forall>i < length rs. record_of_block (blocks data ! i) = Inr (rs ! i))"
proof -
  obtain rs where rs: "parse_packages_data data = Inr rs"
    "map Inr rs = filter (\<lambda>r. r \<noteq> Inr []) (map record_of_block (blocks data))"
    using parse_packages_data_filter by blast
  have m: "map Inr rs = map record_of_block (blocks data)"
    using rs(2) well_formed_filter assms by (simp add: well_formed_def)
  then have l: "length rs = length (blocks data)" by (metis length_map)
  have "\<forall>i < length rs. record_of_block (blocks data ! i) = Inr (rs ! i)"
  proof (intro allI impI)
    fix i assume i: "i < length rs"
    have "map Inr rs ! i = map record_of_block (blocks data) ! i" using m by simp
    then show "record_of_block (blocks data ! i) = Inr (rs ! i)" using i l by simp
  qed
  then show ?thesis using rs(1) l by blast
qed

lemma continuation_appends:
  assumes "split_sep line = None" "last_key current = Some lk" "lk \<noteq> []"
  shows "\<exists>old. map_of current lk = Some old \<and>
           apply_line current line = Inr (dict_set current lk (old @ '' '' @ line))"
proof -
  obtain old where "map_of current lk = Some old" using last_key_present[OF assms(2)] by blast
  then show ?thesis using assms by (simp add: apply_line_def dict_item_def)
qed

lemma orphan_continuation_dropped:
  "split_sep line = None \<Longrightarrow> apply_line [] line = Inr []"
  by (simp add: apply_line_def last_key_def)

text \<open>
  Claim C2. The example text parses to the two records given, a text without a final line
  break still yields its last record, and every well-formed text parses to one record per
  blank-line-delimited block, the record of the block in the same position.
\<close>

theorem parse_blocks:
  "parse_packages_data example_text =
     Inr [[(''Package'', ''foo''), (''Version'', ''1.0 continuation'')], [(''Package'', ''bar'')]] \<and>
   parse_packages_data ''Package: bar'' = Inr [[(''Package'', ''bar'')]] \<and>
   (well_formed data \<longrightarrow>
     (\<exists>rs. parse_packages_data data = Inr rs \<and> length rs = length (blocks data) \<and>
           (\<forall>i < length rs. record_of_block (blocks data ! i) = Inr (rs ! i))))"
proof -
  have a: "parse_packages_data example_text =
     Inr [[(''Package'', ''foo''), (''Version'', ''1.0 continuation'')], [(''Package'', ''bar'')]]"
    by code_simp
  have b: "parse_packages_data ''Package: bar'' = Inr [[(''Package'', ''bar'')]]"
    by code_simp
  show ?thesis using a b parse_well_formed by blast
qed

theorem parse_blocks_witness:
  "well_formed example_text \<and> length (blocks example_text) = 2 \<and>
   (\<exists>rs. parse_packages_data example_text = Inr rs \<and> length rs = 2 \<and>
         record_of_block (blocks example_text ! 1) = Inr (rs ! 1))"
proof -
  have wf: "well_formed example_text" by code_simp
  have l: "length (blocks example_text) = 2" by code_simp
  from parse_blocks[of example_text] wf obtain rs where
    rs: "parse_packages_data example_text = Inr rs" "length rs = length (blocks example_text)"
      "\<forall>i < length rs. record_of_block (blocks example_text ! i) = Inr (rs ! i)"
    by blast
  have "record_of_block (blocks example_text ! 1) = Inr (rs ! 1)" using rs(2,3) l by simp
  then show ?thesis using wf l rs(1,2) by auto
qed

text \<open>
  Claim C6. A continuation line is appended to the value of the key inserted last. The code
  tests that key for truth, not for presence, so after a line with an empty key (a line that
  starts with the separator) the continuation is dropped: the text of the two lines
  \<open>: a\<close> and \<open>b\<close> parses to the record with value \<open>a\<close> under the empty key, not \<open>a b\<close>.
\<close>

theorem empty_key_drops_continuation:
  "parse_packages_data empty_key_text = Inr [[([], ''a'')]] \<and>
   parse_packages_data empty_key_text \<noteq> Inr [[([], ''a b'')]]"
proof -
  have "parse_packages_data empty_key_text = Inr [[([], ''a'')]]" by code_simp
  then show ?thesis by simp
qed

section \<open>The downloader\<close>

lemma slash_dirname:
  assumes "list_ex is_slash p"
  shows "dirname p \<noteq> []"
proof -
  have "list_ex is_slash (rev p)" using assms by (simp add: list_ex_iff)
  then have "dropWhile (\<lambda>c. \<not> is_slash c) (rev p) \<noteq> []"
    by (simp add: list_ex_iff dropWhile_eq_Nil_conv)
  then have h: "path_head p \<noteq> []" by (simp add: path_head_def)
  show ?thesis
  proof (cases "list_all is_slash (path_head p)")
    case True
    then show ?thesis using h by (simp add: dirname_def Let_def)
  next
    case False
    then have "dropWhile is_slash (rev (path_head p)) \<noteq> []"
      by (simp add: list_all_iff dropWhile_eq_Nil_conv)
    then show ?thesis using h False by (simp add: dirname_def Let_def)
  qed
qed

lemma rooted_dirname: "dirname (r @ CHR 0x2F # x) \<noteq> []"
  by (rule slash_dirname) (simp add: list_ex_iff is_slash_def)

lemma path_head_length: "length (path_head p) \<le> length p"
  by (simp add: path_head_def) (metis length_dropWhile_le length_rev)

lemma path_head_last: "path_head p \<noteq> [] \<Longrightarrow> is_slash (last (path_head p))"
proof -
  assume a: "path_head p \<noteq> []"
  let ?xs = "dropWhile (\<lambda>c. \<not> is_slash c) (rev p)"
  from a have ne: "?xs \<noteq> []" by (simp add: path_head_def)
  then have "is_slash (hd ?xs)" using hd_dropWhile[of "\<lambda>c. \<not> is_slash c" "rev p"] by simp
  moreover have "last (path_head p) = hd ?xs" using ne by (simp add: path_head_def last_rev)
  ultimately show ?thesis by simp
qed

lemma rstrip_shorter:
  "h \<noteq> [] \<Longrightarrow> is_slash (last h) \<Longrightarrow> length (rev (dropWhile is_slash (rev h))) < length h"
proof -
  assume a: "h \<noteq> []" "is_slash (last h)"
  then obtain x xs where r: "rev h = x # xs" by (cases "rev h") auto
  then have "x = last h" using a(1) by (metis hd_rev list.sel(1))
  then have "is_slash x" using a(2) by simp
  then have "dropWhile is_slash (x # xs) = dropWhile is_slash xs" by simp
  then have "dropWhile is_slash (rev h) = dropWhile is_slash xs" using r by simp
  then have "length (dropWhile is_slash (rev h)) \<le> length xs" by (simp add: length_dropWhile_le)
  moreover have "length h = Suc (length xs)" using r by (metis length_Cons length_rev)
  ultimately show ?thesis by simp
qed

lemma dirname_length: "length (dirname p) \<le> length p"
  using path_head_length[of p] path_head_last[of p] rstrip_shorter[of "path_head p"]
  by (auto simp: dirname_def Let_def)

lemma dirname_fixed:
  assumes "length p \<le> length (dirname p)" "dirname p \<noteq> []"
  shows "list_all is_slash (dirname p)"
proof (cases "path_head p \<noteq> [] \<and> \<not> list_all is_slash (path_head p)")
  case True
  then have "length (dirname p) < length (path_head p)"
    using path_head_last[of p] rstrip_shorter[of "path_head p"] by (simp add: dirname_def Let_def)
  then show ?thesis using assms(1) path_head_length[of p] by simp
next
  case False
  then have "dirname p = path_head p" unfolding dirname_def Let_def by (simp only: if_False)
  then show ?thesis using False assms(2) by auto
qed


lemma path_parts_Cons [simp]:
  "path_parts (c # cs) =
     (if is_slash c then [] # path_parts cs
      else (c # hd (path_parts cs)) # tl (path_parts cs))"
  by (simp add: Let_def)

declare path_parts.simps(2) [simp del]

lemma path_parts_nonempty: "path_parts p \<noteq> []"
  by (cases p) auto

lemma path_parts_append_slash:
  "is_slash c \<Longrightarrow> path_parts (a @ c # b) = path_parts a @ path_parts b"
proof (induction a)
  case Nil
  then show ?case by simp
next
  case (Cons x xs)
  have ne: "path_parts xs \<noteq> []" by (rule path_parts_nonempty)
  show ?case
  proof (cases "is_slash x")
    case True
    then show ?thesis using Cons by simp
  next
    case False
    have "path_parts (xs @ c # b) = path_parts xs @ path_parts b" using Cons by simp
    then show ?thesis using False ne by (cases "path_parts xs") simp_all
  qed
qed

lemma path_parts_no_slash: "\<not> list_ex is_slash t \<Longrightarrow> path_parts t = [t]"
  by (induction t) auto

lemma path_parts_slashes:
  "list_all is_slash s \<Longrightarrow> path_parts (s @ t) = replicate (length s) [] @ path_parts t"
  by (induction s) auto

lemma foldl_step_empties: "foldl step n (replicate k []) = n"
  by (induction k) (simp_all add: step_def)

lemma rev_split: "xs = rev (dropWhile P (rev xs)) @ rev (takeWhile P (rev xs))"
  by (metis rev_append rev_rev_ident takeWhile_dropWhile_id)

lemma path_split:
  "p = path_head p @ rev (takeWhile (\<lambda>c. \<not> is_slash c) (rev p)) \<and>
   \<not> list_ex is_slash (rev (takeWhile (\<lambda>c. \<not> is_slash c) (rev p)))"
proof -
  have a: "p = path_head p @ rev (takeWhile (\<lambda>c. \<not> is_slash c) (rev p))"
    unfolding path_head_def by (rule rev_split)
  have "\<forall>x \<in> set (takeWhile (\<lambda>c. \<not> is_slash c) (rev p)). \<not> is_slash x"
    using set_takeWhileD by fastforce
  then have b: "\<not> list_ex is_slash (rev (takeWhile (\<lambda>c. \<not> is_slash c) (rev p)))"
    by (simp add: list_ex_iff)
  show ?thesis using a b by blast
qed

lemma head_split:
  assumes "h \<noteq> []" "is_slash (last h)"
  shows "\<exists>c s. h = rev (dropWhile is_slash (rev h)) @ c # s \<and> is_slash c \<and> list_all is_slash s"
proof -
  let ?s = "rev (takeWhile is_slash (rev h))"
  have a: "h = rev (dropWhile is_slash (rev h)) @ ?s" by (rule rev_split)
  have all: "list_all is_slash ?s"
    using set_takeWhileD by (fastforce simp: list_all_iff)
  obtain x xs where r: "rev h = x # xs" using assms(1) by (cases "rev h") auto
  then have "x = last h" using assms(1) by (metis hd_rev list.sel(1))
  then have "is_slash x" using assms(2) by simp
  then have "takeWhile is_slash (x # xs) \<noteq> []" by simp
  then have "takeWhile is_slash (rev h) \<noteq> []" unfolding r .
  then have "?s \<noteq> []" by simp
  then obtain c s where cs: "?s = c # s" by (cases ?s) auto
  then have "is_slash c \<and> list_all is_slash s" using all by simp
  then show ?thesis using a cs by metis
qed

text \<open>The node of a path with a directory part lies directly below the node of that part.\<close>

lemma node_of_dirname:
  assumes "ends_in_name p" "dirname p \<noteq> []"
  shows "node_of wd (dirname p) = [] \<or>
         (\<exists>t. node_of wd p = node_of wd (dirname p) @ [t])"
proof -
  let ?h = "path_head p"
  let ?t = "rev (takeWhile (\<lambda>c. \<not> is_slash c) (rev p))"
  have p: "p = ?h @ ?t" and t: "\<not> list_ex is_slash ?t" using path_split[of p] by blast+
  show ?thesis
  proof (cases "?h \<noteq> [] \<and> \<not> list_all is_slash ?h")
    case False
    then have d: "dirname p = ?h" unfolding dirname_def Let_def by (simp only: if_False)
    then have h: "?h \<noteq> []" "list_all is_slash ?h" using False assms(2) by auto
    have "path_parts (?h @ []) = replicate (length ?h) [] @ path_parts []"
      using path_parts_slashes[OF h(2)] by blast
    then have pp: "path_parts ?h = replicate (length ?h) [] @ [[]]" by simp
    have "is_slash (hd ?h)" using h by (cases ?h) auto
    then have "node_of wd ?h = foldl step [] (replicate (length ?h) [] @ [[]])"
      using h(1) pp by (simp add: node_of_def)
    then have "node_of wd ?h = []" by (simp add: foldl_step_empties step_def)
    then show ?thesis using d by simp
  next
    case True
    then have dd: "dirname p = rev (dropWhile is_slash (rev ?h))"
      by (simp add: dirname_def Let_def)
    obtain c s where cs: "?h = dirname p @ c # s" "is_slash c" "list_all is_slash s"
      using head_split[of ?h] path_head_last[of p] True dd by metis
    have pd: "p = dirname p @ c # (s @ ?t)" using p cs(1) by (metis append.assoc append_Cons)
    have "path_parts (dirname p @ c # (s @ ?t)) = path_parts (dirname p) @ path_parts (s @ ?t)"
      using path_parts_append_slash[OF cs(2)] by blast
    then have "path_parts p = path_parts (dirname p) @ path_parts (s @ ?t)" using pd by simp
    then have parts: "path_parts p = path_parts (dirname p) @ replicate (length s) [] @ [?t]"
      using path_parts_slashes[OF cs(3), of ?t] path_parts_no_slash[OF t] by simp
    then have "last (path_parts p) = ?t" by simp
    then have name: "?t \<noteq> []" "?t \<noteq> ''.''" "?t \<noteq> ''..''"
      using assms(1) by (auto simp: ends_in_name_def)
    have "hd p = hd (dirname p)" using pd assms(2) by (metis hd_append2)
    moreover have "p \<noteq> []" using pd by (metis Nil_is_append_conv list.distinct(1))
    ultimately have start: "(if p \<noteq> [] \<and> is_slash (hd p) then [] else wd) =
                  (if dirname p \<noteq> [] \<and> is_slash (hd (dirname p)) then [] else wd)"
      using assms(2) by simp
    have "node_of wd p = foldl step (node_of wd (dirname p)) (replicate (length s) [] @ [?t])"
      unfolding node_of_def start parts by simp
    then have "node_of wd p = step (node_of wd (dirname p)) ?t"
      by (simp add: foldl_step_empties)
    then have "node_of wd p = node_of wd (dirname p) @ [?t]" using name by (simp add: step_def)
    then show ?thesis by blast
  qed
qed

lemma dirname_isdir:
  assumes "isfile f p" "dirname p \<noteq> []"
  shows "isdir f (dirname p)"
proof -
  have e: "ends_in_name p" and n: "node_of (cwd f) p \<in> set (file_nodes f)"
    using assms(1) by (simp_all add: isfile_def)
  from node_of_dirname[OF e assms(2), of "cwd f"] show ?thesis
  proof
    assume "node_of (cwd f) (dirname p) = []"
    then show ?thesis using assms(2) by (simp add: isdir_def)
  next
    assume "\<exists>t. node_of (cwd f) p = node_of (cwd f) (dirname p) @ [t]"
    then obtain t where t: "node_of (cwd f) p = node_of (cwd f) (dirname p) @ [t]" by blast
    have "strictly_above (node_of (cwd f) (dirname p)) (node_of (cwd f) p)"
      unfolding t by (simp add: strictly_above_def)
    then have "list_ex (strictly_above (node_of (cwd f) (dirname p))) (file_nodes f)"
      unfolding list_ex_iff using n by blast
    then show ?thesis using assms(2) by (simp add: isdir_def Let_def)
  qed
qed

text \<open>
  Claim C3. A task whose destination is an existing file, submitted with the overwrite flag
  off, adds one to the skipped count and changes nothing else: no request is made, the
  downloaded count, the list of downloaded files and the file system stay as they were.
  The destination has a directory part, as every destination submitted by
  \<open>mirror_repository\<close> has (\<open>submitted_have_folder\<close>).
\<close>

theorem skip_existing:
  assumes "isfile (fs w) full_path" "\<not> overwrite" "dirname full_path \<noteq> []"
  shows "download_file e path full_path overwrite w d =
           (None, w, d\<lparr>skipped_count := skipped_count d + 1\<rparr>)"
proof -
  have "path_exists (fs w) (dirname full_path)"
    using dirname_isdir[OF assms(1,3)] by (simp add: path_exists_def)
  then have e: "ensure_folder (fs w) (dirname full_path) = Inr (fs w)"
    by (simp add: ensure_folder_def)
  have p: "path_exists (fs w) full_path" using assms(1) by (simp add: path_exists_def)
  show ?thesis unfolding download_file_def e using p assms(2) by simp
qed

theorem skip_existing_witness:
  "isfile (fs (world_with [(''r/x'', ''old'')])) ''r/x'' \<and> dirname ''r/x'' \<noteq> [] \<and>
   download_file offline_env ''p://u/x'' ''r/x'' False (world_with [(''r/x'', ''old'')]) fresh_downloader =
     (None, world_with [(''r/x'', ''old'')], fresh_downloader\<lparr>skipped_count := skipped_count fresh_downloader + 1\<rparr>)"
proof -
  have h1: "isfile (fs (world_with [(''r/x'', ''old'')])) ''r/x''" by code_simp
  have h2: "\<not> False" by simp
  have h3: "dirname ''r/x'' \<noteq> []" by code_simp
  show ?thesis using h1 h3 skip_existing[OF h1 h2 h3] by simp
qed

lemma set_content_nodes:
  "set (map (\<lambda>e. node_of wd (fst e)) es) \<subseteq>
   set (map (\<lambda>e. node_of wd (fst e)) (set_content wd es p v))"
  by (induction wd es p v rule: set_content.induct) auto

lemma isdir_mono:
  assumes "isdir f q" "set (file_nodes f) \<subseteq> set (file_nodes g)"
    "set (dir_nodes f) \<subseteq> set (dir_nodes g)" "cwd g = cwd f"
  shows "isdir g q"
proof -
  let ?n = "node_of (cwd f) q"
  have q: "q \<noteq> []" using assms(1) by (simp add: isdir_def)
  from assms(1) consider "?n = []" | "list_ex (strictly_above ?n) (file_nodes f)"
    | "list_ex (at_or_above ?n) (dir_nodes f @ [cwd f])"
    unfolding isdir_def Let_def by blast
  then show ?thesis
  proof cases
    case 1
    then show ?thesis using q assms(4) by (simp add: isdir_def)
  next
    case 2
    then obtain m where "m \<in> set (file_nodes f)" "strictly_above ?n m"
      unfolding list_ex_iff by blast
    then have "list_ex (strictly_above ?n) (file_nodes g)"
      unfolding list_ex_iff using assms(2) by blast
    then show ?thesis using q assms(4) by (simp add: isdir_def Let_def)
  next
    case 3
    then obtain m where m: "m \<in> set (dir_nodes f @ [cwd f])" "at_or_above ?n m"
      unfolding list_ex_iff by blast
    then have "m \<in> set (dir_nodes g @ [cwd g])" using assms(3,4) by auto
    then have "list_ex (at_or_above ?n) (dir_nodes g @ [cwd g])"
      unfolding list_ex_iff using m(2) by blast
    then show ?thesis using q assms(4) by (simp add: isdir_def Let_def)
  qed
qed

lemma write_file_isdir:
  assumes "write_file f p content = Inr f2" "isdir f q"
  shows "isdir f2 q"
proof -
  have f2: "f2 = f\<lparr>files := set_content (cwd f) (files f) p content\<rparr>"
    using assms(1) by (auto simp: write_file_def split: if_splits)
  have "set (file_nodes f) \<subseteq> set (file_nodes f2)"
    unfolding f2 file_nodes_def using set_content_nodes[of "cwd f" "files f" p content] by simp
  moreover have "set (dir_nodes f) \<subseteq> set (dir_nodes f2)" "cwd f2 = cwd f"
    unfolding f2 by (simp_all add: dir_nodes_def)
  ultimately show ?thesis using isdir_mono[OF assms(2)] by blast
qed

lemma fetch_into_isdir:
  assumes "isdir (fs w) q"
  shows "isdir (fs (fst (snd (fetch_into e path full_path w d)))) q"
proof (cases "remote e path")
  case (Response status body)
  show ?thesis
  proof (cases "write_file (fs w) full_path body")
    case (Inl err)
    then show ?thesis using Response assms by (simp add: fetch_into_def Let_def)
  next
    case (Inr f2)
    then have "isdir f2 q" using write_file_isdir assms by blast
    then show ?thesis using Response Inr assms by (simp add: fetch_into_def Let_def)
  qed
next
  case (StreamBroken status part)
  show ?thesis
  proof (cases "write_file (fs w) full_path part")
    case (Inl err)
    then show ?thesis using StreamBroken assms by (simp add: fetch_into_def Let_def)
  next
    case (Inr f2)
    then have "isdir f2 q" using write_file_isdir assms by blast
    then show ?thesis using StreamBroken Inr assms by (simp add: fetch_into_def Let_def)
  qed
next
  case ConnectFailed
  then show ?thesis using assms by (simp add: fetch_into_def Let_def)
qed

lemma ensure_folder_makes:
  assumes "folder \<noteq> []" "\<not> list_ex (isfile f) (folder # ancestors folder)"
  shows "\<exists>f1. ensure_folder f folder = Inr f1 \<and> isdir f1 folder"
proof (cases "path_exists f folder")
  case True
  moreover have "\<not> isfile f folder" using assms(2) by simp
  ultimately have "isdir f folder" by (simp add: path_exists_def)
  then show ?thesis using True by (simp add: ensure_folder_def)
next
  case False
  have "makedirs f folder = Inr (f\<lparr>dirs := dirs f @ [folder]\<rparr>)"
    using assms unfolding makedirs_def by simp
  moreover have "isdir (f\<lparr>dirs := dirs f @ [folder]\<rparr>) folder"
    using assms(1) by (simp add: isdir_def dir_nodes_def at_or_above_def Let_def)
  ultimately show ?thesis using False by (simp add: ensure_folder_def)
qed

text \<open>
  Claim C10. When the directory of the destination can be made (it has a name, and neither it
  nor a directory above it is a regular file), \<open>download_file\<close> first makes it; the skip
  test and the request both run on the file system that has it, and it is still there when
  the call ends, whether the task was skipped, the file written, or the fetch failed.
\<close>

theorem parent_created_first:
  assumes "dirname full_path \<noteq> []"
    and "\<not> list_ex (isfile (fs w)) (dirname full_path # ancestors (dirname full_path))"
  shows "\<exists>f1. ensure_folder (fs w) (dirname full_path) = Inr f1 \<and> isdir f1 (dirname full_path) \<and>
           download_file e path full_path overwrite w d =
             (if path_exists f1 full_path \<and> \<not> overwrite
              then (None, w\<lparr>fs := f1\<rparr>, d\<lparr>skipped_count := skipped_count d + 1\<rparr>)
              else fetch_into e path full_path (w\<lparr>fs := f1\<rparr>) d) \<and>
           isdir (fs (fst (snd (download_file e path full_path overwrite w d)))) (dirname full_path)"
proof -
  obtain f1 where f1: "ensure_folder (fs w) (dirname full_path) = Inr f1" "isdir f1 (dirname full_path)"
    using ensure_folder_makes[OF assms] by blast
  have eq: "download_file e path full_path overwrite w d =
             (if path_exists f1 full_path \<and> \<not> overwrite
              then (None, w\<lparr>fs := f1\<rparr>, d\<lparr>skipped_count := skipped_count d + 1\<rparr>)
              else fetch_into e path full_path (w\<lparr>fs := f1\<rparr>) d)"
    unfolding download_file_def f1(1) by (simp add: Let_def)
  have "isdir (fs (fst (snd (download_file e path full_path overwrite w d)))) (dirname full_path)"
  proof (cases "path_exists f1 full_path \<and> \<not> overwrite")
    case True
    then show ?thesis using eq f1(2) by simp
  next
    case False
    have "isdir (fs (w\<lparr>fs := f1\<rparr>)) (dirname full_path)" using f1(2) by simp
    from fetch_into_isdir[OF this] show ?thesis using eq False by simp
  qed
  then show ?thesis using f1 eq by blast
qed

theorem parent_created_first_witness:
  "dirname ''r/x'' \<noteq> [] \<and>
   \<not> list_ex (isfile (fs (world_with []))) (dirname ''r/x'' # ancestors (dirname ''r/x'')) \<and>
   \<not> isdir (fs (world_with [])) (dirname ''r/x'') \<and>
   isdir (fs (fst (snd (download_file offline_env ''p://u/x'' ''r/x'' False (world_with [])
                          fresh_downloader)))) (dirname ''r/x'')"
proof -
  have h1: "dirname ''r/x'' \<noteq> []" by code_simp
  have h2: "\<not> list_ex (isfile (fs (world_with []))) (dirname ''r/x'' # ancestors (dirname ''r/x''))"
    by code_simp
  have h3: "\<not> isdir (fs (world_with [])) (dirname ''r/x'')" by code_simp
  show ?thesis using h1 h2 h3 parent_created_first[OF h1 h2] by blast
qed

section \<open>Planning and running a mirror\<close>






lemma mirror_repository_submitted:
  "submitted (mirror_repository e a w d) =
     futures (snd (mirror_distributions e a (distributions a)
                     \<lparr>the_world = w, the_downloader = d, link_list = [], futures = []\<rparr>))"
  by (simp add: mirror_repository_def split: prod.splits)








lemma sync_dir_futures: "futures (sync_dir e a p st) = futures st"
  by (simp add: sync_dir_def Let_def split: prod.splits)

lemma sync_dir_link_list: "link_list (sync_dir e a p st) = link_list st"
  by (simp add: sync_dir_def Let_def split: prod.splits)

lemma arch_synced_futures:
  "futures (arch_synced e a distribution component arch st) =
     futures st @ [contents_task a distribution component arch]"
  by (simp add: arch_synced_def sync_dir_futures submit_def)

lemma arch_synced_link_list:
  "link_list (arch_synced e a distribution component arch st) = link_list st"
  by (simp add: arch_synced_def sync_dir_link_list submit_def)

lemma package_tasks_nth:
  "i < length ps \<Longrightarrow> map_of (ps ! i) ''Filename'' = Some fn \<Longrightarrow>
   package_tasks a ps ! i =
     (proto a @ ''://'' @ url a @ ''/'' @ inpath a @ ''/'' @ fn,
      rootpath a @ ''/'' @ url a @ ''/'' @ inpath a @ ''/'' @ fn, False)"
  by (simp add: package_tasks_def downloadlink_def filesave_def fmt_get_def)

text \<open>
  Claim C5, amended. When the index of an architecture parses to the records \<open>ps\<close>, planning
  that architecture submits, after the task for the contents file, exactly one task per
  record, in order, each with the overwrite flag off; for a record with a \<open>Filename\<close> field
  the source is \<open>{proto}://{url}/{inpath}/{Filename}\<close> and the destination
  \<open>{rootpath}/{url}/{inpath}/{Filename}\<close>.
\<close>

theorem one_task_per_record:
  assumes "packages_info e a (fs (the_world (arch_synced e a distribution component arch st)))
             distribution component arch = Inr ps"
  shows "fst (mirror_arch e a distribution component arch st) = None \<and>
         futures (snd (mirror_arch e a distribution component arch st)) =
           futures st @ [contents_task a distribution component arch] @ package_tasks a ps \<and>
         length (package_tasks a ps) = length ps \<and>
         (\<forall>i < length ps. snd (snd (package_tasks a ps ! i)) = False) \<and>
         (\<forall>i < length ps. \<forall>fn. map_of (ps ! i) ''Filename'' = Some fn \<longrightarrow>
            package_tasks a ps ! i =
              (proto a @ ''://'' @ url a @ ''/'' @ inpath a @ ''/'' @ fn,
               rootpath a @ ''/'' @ url a @ ''/'' @ inpath a @ ''/'' @ fn, False))"
proof -
  have m: "mirror_arch e a distribution component arch st =
        (None, (arch_synced e a distribution component arch st)
           \<lparr>link_list := link_list (arch_synced e a distribution component arch st) @ map (filesave a) ps,
            futures := futures (arch_synced e a distribution component arch st) @ package_tasks a ps\<rparr>)"
    unfolding mirror_arch_def Let_def assms by simp
  have l: "length (package_tasks a ps) = length ps" by (simp add: package_tasks_def)
  have o: "\<forall>i < length ps. snd (snd (package_tasks a ps ! i)) = False" by (simp add: package_tasks_def)
  show ?thesis using m l o package_tasks_nth by (simp add: arch_synced_futures)
qed

text \<open>
  Claim C9. When the answer to the prompt is not \<open>y\<close>, \<open>remove_repository\<close> leaves the
  world as it found it: no file is removed and no directory tree deleted.
\<close>

theorem cancelled_changes_nothing:
  "read_answer typed \<noteq> ''y'' \<Longrightarrow> snd (remove_repository e a typed w) = w"
  by (simp add: remove_repository_def split: sum.splits)

lemma find_skips:
  "\<not> list_ex is_packages_file pre \<Longrightarrow>
   find_and_extract_packages e f (pre @ rest) = find_and_extract_packages e f rest"
  by (induction pre) auto

lemma no_packages_file_None:
  "\<not> list_ex is_packages_file fl \<Longrightarrow> find_and_extract_packages e f fl = Inr None"
  using find_skips[of fl e f "[]"] by simp

lemma mirror_repository_planning_error:
  assumes "fst (mirror_distributions e a (distributions a)
             \<lparr>the_world = w, the_downloader = d, link_list = [], futures = []\<rparr>) = Some err"
  shows "outcome (mirror_repository e a w d) = Some err"
proof -
  obtain planning st where p: "mirror_distributions e a (distributions a)
             \<lparr>the_world = w, the_downloader = d, link_list = [], futures = []\<rparr> = (planning, st)"
    by (cases "mirror_distributions e a (distributions a)
             \<lparr>the_world = w, the_downloader = d, link_list = [], futures = []\<rparr>") auto
  obtain rs w1 d1 where r: "run_tasks e (futures st) (the_world st) (the_downloader st) = (rs, w1, d1)"
    by (cases "run_tasks e (futures st) (the_world st) (the_downloader st)") auto
  have "planning = Some err" using assms p by simp
  then show ?thesis using p r by (simp add: mirror_repository_def)
qed

lemma mirror_archs_append:
  "mirror_archs e a d c (pre @ rest) st =
     (case mirror_archs e a d c pre st of
        (Some err, st1) \<Rightarrow> (Some err, st1)
      | (None, st1) \<Rightarrow> mirror_archs e a d c rest st1)"
  by (induction pre arbitrary: st) (auto split: prod.splits option.splits)

lemma mirror_components_append:
  "mirror_components e a d (pre @ rest) st =
     (case mirror_components e a d pre st of
        (Some err, st1) \<Rightarrow> (Some err, st1)
      | (None, st1) \<Rightarrow> mirror_components e a d rest st1)"
  by (induction pre arbitrary: st) (auto split: prod.splits option.splits)

lemma mirror_distributions_append:
  "mirror_distributions e a (pre @ rest) st =
     (case mirror_distributions e a pre st of
        (Some err, st1) \<Rightarrow> (Some err, st1)
      | (None, st1) \<Rightarrow> mirror_distributions e a rest st1)"
  by (induction pre arbitrary: st) (auto split: prod.splits option.splits)

lemma decode_error_extract:
  assumes "read_file f fp = Some bytes"
    and "(if endswith fp ''.xz'' then lzma_decode e bytes
          else if endswith fp ''.gz'' then gzip_decode e bytes
          else text_decode e bytes) = None"
  shows "extract_file e f fp = Inl DecodeError"
  unfolding extract_file_def using assms by simp

lemma decode_error_info:
  assumes "list_files_in_folder f (save_path a distribution component arch) = pre @ fp # post"
    and "\<not> list_ex is_packages_file pre" and "is_packages_file fp"
    and "extract_file e f fp = Inl DecodeError"
  shows "packages_info e a f distribution component arch = Inl DecodeError"
proof -
  have "find_and_extract_packages e f (pre @ fp # post) = find_and_extract_packages e f (fp # post)"
    using find_skips[OF assms(2)] by simp
  then have "find_and_extract_packages e f (pre @ fp # post) = Inl DecodeError"
    using assms(3,4) by simp
  then show ?thesis unfolding packages_info_def Let_def assms(1) by simp
qed

text \<open>
  Claim C7, amended. Let the loops of \<open>mirror_repository\<close> reach an architecture of a
  component of a distribution, everything planned before it having gone through, and let the
  first package index found in the directory of that architecture hold a stream that is not
  valid for the compression its suffix declares. Then \<open>extract_file\<close> fails with a decode
  error and nothing catches it: planning ends there, in the state of that architecture after
  its two directory syncs, whatever architectures, components and distributions would
  follow; the tasks submitted are those submitted before, with the task for the contents
  file of that architecture as the last; and the run ends with the decode error.
\<close>

theorem decode_error_propagates:
  assumes "distributions a = ds_pre @ distribution # ds_post"
    and "components a = cs_pre @ component # cs_post"
    and "architectures a = ars_pre @ arch # ars_post"
    and "mirror_distributions e a ds_pre
           \<lparr>the_world = w, the_downloader = d, link_list = [], futures = []\<rparr> = (None, st_d)"
    and "mirror_components e a distribution cs_pre
           (st_d\<lparr>futures := futures st_d @ release_tasks a distribution\<rparr>) = (None, st_c)"
    and "mirror_archs e a distribution component ars_pre
           (sync_dir e a (dist_path a distribution @ ''/'' @ component @ ''/source/'')
              (sync_dir e a (dist_path a distribution @ ''/'' @ component @ ''/i18n/'') st_c)) =
           (None, st)"
    and "f = fs (the_world (arch_synced e a distribution component arch st))"
    and "list_files_in_folder f (save_path a distribution component arch) = pre @ fp # post"
    and "\<not> list_ex is_packages_file pre" and "is_packages_file fp"
    and "read_file f fp = Some bytes"
    and "(if endswith fp ''.xz'' then lzma_decode e bytes
          else if endswith fp ''.gz'' then gzip_decode e bytes
          else text_decode e bytes) = None"
  shows "extract_file e f fp = Inl DecodeError \<and>
         mirror_arch e a distribution component arch st =
           (Some DecodeError, arch_synced e a distribution component arch st) \<and>
         mirror_distributions e a (distributions a)
           \<lparr>the_world = w, the_downloader = d, link_list = [], futures = []\<rparr> =
           (Some DecodeError, arch_synced e a distribution component arch st) \<and>
         outcome (mirror_repository e a w d) = Some DecodeError \<and>
         submitted (mirror_repository e a w d) =
           futures st @ [contents_task a distribution component arch]"
proof -
  let ?end = "arch_synced e a distribution component arch st"
  let ?init = "\<lparr>the_world = w, the_downloader = d, link_list = [], futures = []\<rparr>"
  have x: "extract_file e f fp = Inl DecodeError"
    using decode_error_extract[OF assms(11,12)] .
  have pi: "packages_info e a f distribution component arch = Inl DecodeError"
    using decode_error_info[OF assms(8,9,10) x] .
  have ma: "mirror_arch e a distribution component arch st = (Some DecodeError, ?end)"
    unfolding mirror_arch_def Let_def using pi assms(7) by simp
  have "mirror_archs e a distribution component (arch # ars_post) st = (Some DecodeError, ?end)"
    using ma by simp
  then have "mirror_archs e a distribution component (ars_pre @ arch # ars_post)
           (sync_dir e a (dist_path a distribution @ ''/'' @ component @ ''/source/'')
              (sync_dir e a (dist_path a distribution @ ''/'' @ component @ ''/i18n/'') st_c)) =
           (Some DecodeError, ?end)"
    unfolding mirror_archs_append assms(6) by simp
  then have mc: "mirror_component e a distribution component st_c = (Some DecodeError, ?end)"
    unfolding mirror_component_def assms(3) .
  have "mirror_components e a distribution (component # cs_post) st_c = (Some DecodeError, ?end)"
    using mc by simp
  then have "mirror_components e a distribution (cs_pre @ component # cs_post)
           (st_d\<lparr>futures := futures st_d @ release_tasks a distribution\<rparr>) = (Some DecodeError, ?end)"
    unfolding mirror_components_append assms(5) by simp
  then have md: "mirror_distribution e a distribution st_d = (Some DecodeError, ?end)"
    unfolding mirror_distribution_def assms(2) .
  have "mirror_distributions e a (distribution # ds_post) st_d = (Some DecodeError, ?end)"
    using md by simp
  then have "mirror_distributions e a (ds_pre @ distribution # ds_post) ?init = (Some DecodeError, ?end)"
    unfolding mirror_distributions_append assms(4) by simp
  then have all: "mirror_distributions e a (distributions a) ?init = (Some DecodeError, ?end)"
    unfolding assms(1) .
  have out: "outcome (mirror_repository e a w d) = Some DecodeError"
    using mirror_repository_planning_error[of e a w d DecodeError] all by simp
  have sub: "submitted (mirror_repository e a w d) =
           futures st @ [contents_task a distribution component arch]"
    unfolding mirror_repository_submitted all by (simp add: arch_synced_futures)
  show ?thesis using x ma all out sub by blast
qed

lemma sync_dir_fs:
  "fs (the_world (sync_dir e a p st)) =
     snd (wget e (rootpath a @ ''/'' @ takeWhile (\<lambda>c. \<not> is_slash c) p) (proto a @ ''://'' @ p)
            (fs (the_world st)))"
  by (simp add: sync_dir_def download_directory_def Let_def split: prod.splits)

lemma same_index_trans:
  "same_index e a f g \<Longrightarrow> same_index e a g h \<Longrightarrow> same_index e a f h"
  by (simp add: same_index_def)

lemma sync_dir_agree:
  assumes "\<forall>p t g. same_index e a g f \<longrightarrow> same_index e a (snd (wget e p t g)) f"
    "agree e a f st fl"
  shows "agree e a f (sync_dir e a p st) fl"
proof -
  have "same_index e a (fs (the_world st)) f" using assms(2) by (simp add: agree_def)
  then have "same_index e a (fs (the_world (sync_dir e a p st))) f"
    unfolding sync_dir_fs using assms(1) by blast
  then show ?thesis using assms(2) by (simp add: agree_def sync_dir_futures sync_dir_link_list)
qed

lemma submit_forced_agree:
  assumes "agree e a f st fl" "snd (snd t)"
  shows "agree e a f (submit t st) fl"
  using assms by (simp add: agree_def submit_def package_destinations_def)

lemma contents_task_forced: "snd (snd (contents_task a d c ar))"
  by (simp add: contents_task_def Let_def)

lemma arch_synced_agree:
  assumes "\<forall>p t g. same_index e a g f \<longrightarrow> same_index e a (snd (wget e p t g)) f" "agree e a f st fl"
  shows "agree e a f (arch_synced e a d c ar st) fl"
  unfolding arch_synced_def
  by (intro sync_dir_agree[OF assms(1)] submit_forced_agree[OF assms(2)] contents_task_forced)

lemma package_destinations_tasks:
  "package_destinations (ts @ package_tasks a ps) = package_destinations ts @ map (filesave a) ps"
  by (simp add: package_destinations_def package_tasks_def comp_def)

lemma arch_agrees:
  assumes "\<forall>p t g. same_index e a g f \<longrightarrow> same_index e a (snd (wget e p t g)) f" "agree e a f st fl"
  shows "agrees e a f (remove_arch e a f d c ar fl) (mirror_arch e a d c ar st)"
proof -
  let ?st1 = "arch_synced e a d c ar st"
  have ag: "agree e a f ?st1 fl" using arch_synced_agree[OF assms] .
  then have pi: "packages_info e a (fs (the_world ?st1)) d c ar = packages_info e a f d c ar"
    by (simp add: agree_def same_index_def)
  show ?thesis
  proof (cases "packages_info e a f d c ar")
    case (Inl err)
    then show ?thesis using pi by (simp add: agrees_def remove_arch_def mirror_arch_def Let_def)
  next
    case (Inr ps)
    have "agree e a f (?st1\<lparr>link_list := link_list ?st1 @ map (filesave a) ps,
                        futures := futures ?st1 @ package_tasks a ps\<rparr>) (fl @ map (filesave a) ps)"
      using ag by (simp add: agree_def package_destinations_tasks)
    then show ?thesis using pi Inr by (simp add: agrees_def remove_arch_def mirror_arch_def Let_def)
  qed
qed

lemma archs_agrees:
  assumes "\<forall>p t g. same_index e a g f \<longrightarrow> same_index e a (snd (wget e p t g)) f" "agree e a f st fl"
  shows "agrees e a f (remove_archs e a f d c ars fl) (mirror_archs e a d c ars st)"
  using assms(2)
proof (induction ars arbitrary: st fl)
  case Nil
  then show ?case by (simp add: agrees_def)
next
  case (Cons ar ars)
  have step: "agrees e a f (remove_arch e a f d c ar fl) (mirror_arch e a d c ar st)"
    using arch_agrees[OF assms(1) Cons.prems] .
  show ?case
  proof (cases "remove_arch e a f d c ar fl")
    case (Inl err)
    then have "fst (mirror_arch e a d c ar st) = Some err" using step by (simp add: agrees_def)
    then show ?thesis using Inl by (cases "mirror_arch e a d c ar st") (simp add: agrees_def)
  next
    case (Inr fl1)
    then obtain st1 where m: "mirror_arch e a d c ar st = (None, st1)" "agree e a f st1 fl1"
      using step by (cases "mirror_arch e a d c ar st") (simp add: agrees_def)
    show ?thesis using Cons.IH[OF m(2)] Inr m(1) by simp
  qed
qed

lemma components_agrees:
  assumes "\<forall>p t g. same_index e a g f \<longrightarrow> same_index e a (snd (wget e p t g)) f" "agree e a f st fl"
  shows "agrees e a f (remove_components e a f d cs fl) (mirror_components e a d cs st)"
  using assms(2)
proof (induction cs arbitrary: st fl)
  case Nil
  then show ?case by (simp add: agrees_def)
next
  case (Cons c cs)
  let ?st0 = "sync_dir e a (dist_path a d @ ''/'' @ c @ ''/source/'')
                (sync_dir e a (dist_path a d @ ''/'' @ c @ ''/i18n/'') st)"
  have "agree e a f ?st0 fl"
    by (intro sync_dir_agree[OF assms(1)] Cons.prems)
  then have step: "agrees e a f (remove_archs e a f d c (architectures a) fl) (mirror_component e a d c st)"
    unfolding mirror_component_def using archs_agrees[OF assms(1)] by blast
  show ?case
  proof (cases "remove_archs e a f d c (architectures a) fl")
    case (Inl err)
    then have "fst (mirror_component e a d c st) = Some err" using step by (simp add: agrees_def)
    then show ?thesis using Inl by (cases "mirror_component e a d c st") (simp add: agrees_def)
  next
    case (Inr fl1)
    then obtain st1 where m: "mirror_component e a d c st = (None, st1)" "agree e a f st1 fl1"
      using step by (cases "mirror_component e a d c st") (simp add: agrees_def)
    show ?thesis using Cons.IH[OF m(2)] Inr m(1) by simp
  qed
qed

lemma release_tasks_agree:
  assumes "agree e a f st fl"
  shows "agree e a f (st\<lparr>futures := futures st @ release_tasks a d\<rparr>) fl"
  using assms by (simp add: agree_def release_tasks_def package_destinations_def)

lemma distributions_agrees:
  assumes "\<forall>p t g. same_index e a g f \<longrightarrow> same_index e a (snd (wget e p t g)) f" "agree e a f st fl"
  shows "agrees e a f (remove_distributions e a f ds fl) (mirror_distributions e a ds st)"
  using assms(2)
proof (induction ds arbitrary: st fl)
  case Nil
  then show ?case by (simp add: agrees_def)
next
  case (Cons d ds)
  have "agree e a f (st\<lparr>futures := futures st @ release_tasks a d\<rparr>) fl"
    using release_tasks_agree[OF Cons.prems] .
  then have step: "agrees e a f (remove_components e a f d (components a) fl) (mirror_distribution e a d st)"
    unfolding mirror_distribution_def using components_agrees[OF assms(1)] by blast
  show ?case
  proof (cases "remove_components e a f d (components a) fl")
    case (Inl err)
    then have "fst (mirror_distribution e a d st) = Some err" using step by (simp add: agrees_def)
    then show ?thesis using Inl by (cases "mirror_distribution e a d st") (simp add: agrees_def)
  next
    case (Inr fl1)
    then obtain st1 where m: "mirror_distribution e a d st = (None, st1)" "agree e a f st1 fl1"
      using step by (cases "mirror_distribution e a d st") (simp add: agrees_def)
    show ?thesis using Cons.IH[OF m(2)] Inr m(1) by simp
  qed
qed

lemma delete_all_logs:
  "requests_made (snd (delete_all a fl w)) = requests_made w \<and>
   syncs_made (snd (delete_all a fl w)) = syncs_made w"
  by (simp add: delete_all_def Let_def split: sum.splits)

lemma remove_repository_logs:
  "requests_made (snd (remove_repository e a typed w)) = requests_made w \<and>
   syncs_made (snd (remove_repository e a typed w)) = syncs_made w"
  using delete_all_logs by (simp add: remove_repository_def split: sum.splits)

text \<open>
  Claim C8. Let the directory syncs leave the index files as the removal finds them: a sync
  of a tree that reads like the local tree still reads like it. Then the plan of the mirror
  run and the plan of the removal fail with the same error, or else the destinations of the
  package tasks that the mirror run submits are exactly the paths the removal lists, in the
  same order. The removal makes no request and starts no directory sync.
\<close>

theorem prune_same_paths:
  assumes "\<forall>p t g. same_index e a g (fs w) \<longrightarrow> same_index e a (snd (wget e p t g)) (fs w)"
  shows "(case remove_distributions e a (fs w) (distributions a) [] of
            Inl err \<Rightarrow>
              fst (mirror_distributions e a (distributions a)
                     \<lparr>the_world = w, the_downloader = d, link_list = [], futures = []\<rparr>) = Some err \<and>
              outcome (mirror_repository e a w d) = Some err
          | Inr file_list \<Rightarrow>
              fst (mirror_distributions e a (distributions a)
                     \<lparr>the_world = w, the_downloader = d, link_list = [], futures = []\<rparr>) = None \<and>
              package_destinations (submitted (mirror_repository e a w d)) = file_list) \<and>
         requests_made (snd (remove_repository e a typed w)) = requests_made w \<and>
         syncs_made (snd (remove_repository e a typed w)) = syncs_made w"
proof -
  let ?st = "\<lparr>the_world = w, the_downloader = d, link_list = [], futures = []\<rparr>"
  have "agree e a (fs w) ?st []"
    by (simp add: agree_def same_index_def package_destinations_def)
  from distributions_agrees[OF assms this, of "distributions a"]
  have ag: "agrees e a (fs w) (remove_distributions e a (fs w) (distributions a) [])
          (mirror_distributions e a (distributions a) ?st)" .
  have logs: "requests_made (snd (remove_repository e a typed w)) = requests_made w \<and>
         syncs_made (snd (remove_repository e a typed w)) = syncs_made w"
    using remove_repository_logs by blast
  show ?thesis
  proof (cases "remove_distributions e a (fs w) (distributions a) []")
    case (Inl err)
    then have "fst (mirror_distributions e a (distributions a) ?st) = Some err"
      using ag by (simp add: agrees_def)
    then show ?thesis using Inl logs mirror_repository_planning_error[of e a w d err] by simp
  next
    case (Inr file_list)
    then have "fst (mirror_distributions e a (distributions a) ?st) = None"
      "package_destinations (futures (snd (mirror_distributions e a (distributions a) ?st))) = file_list"
      using ag by (simp_all add: agrees_def agree_def)
    then show ?thesis using Inr logs by (simp add: mirror_repository_submitted)
  qed
qed

text \<open>Every destination that \<open>mirror_repository\<close> submits has a directory part.\<close>

lemma release_tasks_folder: "list_all has_folder (release_tasks a d)"
  by (simp add: release_tasks_def has_folder_def rooted_dirname)

lemma contents_task_folder: "has_folder (contents_task a d c ar)"
  by (simp add: contents_task_def Let_def has_folder_def rooted_dirname)

lemma package_tasks_folder: "list_all has_folder (package_tasks a ps)"
  by (simp add: package_tasks_def has_folder_def filesave_def rooted_dirname list_all_iff)

lemma mirror_arch_folder:
  assumes "list_all has_folder (futures st)"
  shows "list_all has_folder (futures (snd (mirror_arch e a d c ar st)))"
proof (cases "packages_info e a (fs (the_world (arch_synced e a d c ar st))) d c ar")
  case (Inl err)
  then show ?thesis using assms contents_task_folder
    by (simp add: mirror_arch_def Let_def arch_synced_futures)
next
  case (Inr ps)
  then show ?thesis using assms contents_task_folder package_tasks_folder
    by (simp add: mirror_arch_def Let_def arch_synced_futures)
qed

lemma mirror_archs_folder:
  "list_all has_folder (futures st) \<Longrightarrow>
   list_all has_folder (futures (snd (mirror_archs e a d c ars st)))"
proof (induction ars arbitrary: st)
  case Nil
  then show ?case by simp
next
  case (Cons ar ars)
  obtain r st1 where m: "mirror_arch e a d c ar st = (r, st1)" by (cases "mirror_arch e a d c ar st") auto
  have f: "list_all has_folder (futures st1)" using mirror_arch_folder[OF Cons.prems, of e a d c ar] m by simp
  show ?case using Cons.IH[OF f] m f by (cases r) simp_all
qed

lemma mirror_components_folder:
  "list_all has_folder (futures st) \<Longrightarrow>
   list_all has_folder (futures (snd (mirror_components e a d cs st)))"
proof (induction cs arbitrary: st)
  case Nil
  then show ?case by simp
next
  case (Cons c cs)
  obtain r st1 where m: "mirror_component e a d c st = (r, st1)" by (cases "mirror_component e a d c st") auto
  have "list_all has_folder (futures (snd (mirror_component e a d c st)))"
    unfolding mirror_component_def
    by (rule mirror_archs_folder) (simp add: sync_dir_futures Cons.prems)
  then have f: "list_all has_folder (futures st1)" using m by simp
  show ?case using Cons.IH[OF f] m f by (cases r) simp_all
qed

lemma mirror_distributions_folder:
  "list_all has_folder (futures st) \<Longrightarrow>
   list_all has_folder (futures (snd (mirror_distributions e a ds st)))"
proof (induction ds arbitrary: st)
  case Nil
  then show ?case by simp
next
  case (Cons d ds)
  obtain r st1 where m: "mirror_distribution e a d st = (r, st1)" by (cases "mirror_distribution e a d st") auto
  have "list_all has_folder (futures (snd (mirror_distribution e a d st)))"
    unfolding mirror_distribution_def
    by (rule mirror_components_folder) (simp add: release_tasks_folder Cons.prems)
  then have f: "list_all has_folder (futures st1)" using m by simp
  show ?case using Cons.IH[OF f] m f by (cases r) simp_all
qed

lemma submitted_have_folder:
  "list_all has_folder (submitted (mirror_repository e a w d))"
proof -
  let ?st0 = "\<lparr>the_world = w, the_downloader = d, link_list = [], futures = []\<rparr>"
  obtain planning st where p: "mirror_distributions e a (distributions a) ?st0 = (planning, st)"
    by (cases "mirror_distributions e a (distributions a) ?st0") auto
  obtain rs w1 d1 where r: "run_tasks e (futures st) (the_world st) (the_downloader st) = (rs, w1, d1)"
    by (cases "run_tasks e (futures st) (the_world st) (the_downloader st)") auto
  have "list_all has_folder (futures (snd (mirror_distributions e a (distributions a) ?st0)))"
    by (rule mirror_distributions_folder) simp
  then show ?thesis using p r by (simp add: mirror_repository_def)
qed



text \<open>
  Claim C5 as stated fails: an index whose only record has no \<open>Filename\<close> field still gives a
  package task, for the path that ends in \<open>None\<close>.
\<close>

theorem record_without_filename_task:
  "packages_info missing_env one_arch_args (fs (world_with index_without_filename))
     ''d'' ''c'' ''a'' = Inr [[(''Package'', ''foo'')]] \<and>
   map_of [(''Package'', ''foo'')] ''Filename'' = None \<and>
   package_destinations (submitted
     (mirror_repository missing_env one_arch_args (world_with index_without_filename)
        fresh_downloader)) = [''r/u/i/None'']"
  by code_simp

theorem one_task_per_record_witness:
  "packages_info missing_env one_arch_args
     (fs (the_world (arch_synced missing_env one_arch_args ''d'' ''c'' ''a''
                       (start_state (world_with index_with_filename)))))
     ''d'' ''c'' ''a'' = Inr [[(''Filename'', ''pool/x.deb'')]] \<and>
   futures (snd (mirror_arch missing_env one_arch_args ''d'' ''c'' ''a''
                   (start_state (world_with index_with_filename)))) =
     [contents_task one_arch_args ''d'' ''c'' ''a''] @
     package_tasks one_arch_args [[(''Filename'', ''pool/x.deb'')]] \<and>
   package_tasks one_arch_args [[(''Filename'', ''pool/x.deb'')]] =
     [(''p://u/i/pool/x.deb'', ''r/u/i/pool/x.deb'', False)]"
proof -
  have h: "packages_info missing_env one_arch_args
     (fs (the_world (arch_synced missing_env one_arch_args ''d'' ''c'' ''a''
                       (start_state (world_with index_with_filename)))))
     ''d'' ''c'' ''a'' = Inr [[(''Filename'', ''pool/x.deb'')]]"
    by code_simp
  have f: "futures (start_state (world_with index_with_filename)) = []"
    by (simp add: start_state_def)
  have p: "package_tasks one_arch_args [[(''Filename'', ''pool/x.deb'')]] =
     [(''p://u/i/pool/x.deb'', ''r/u/i/pool/x.deb'', False)]"
    by code_simp
  show ?thesis using h p one_task_per_record[OF h] f by simp
qed

text \<open>
  Claim C7 as stated fails: with an index that does not decode in the directory of the first
  architecture, the run ends with the decode error and the second architecture is never
  planned: no task for its contents file is submitted.
\<close>

theorem decode_error_aborts_run:
  "outcome (mirror_repository missing_env small_args (world_with broken_index) fresh_downloader) =
     Some DecodeError \<and>
   map fst (submitted
     (mirror_repository missing_env small_args (world_with broken_index) fresh_downloader)) =
     [''p://u/i/dists/d/InRelease'', ''p://u/i/dists/d/Release'', ''p://u/i/dists/d/Release.gpg'',
      ''p://u/i/dists/d/c/Contents-a.gz'']"
  by code_simp

theorem decode_error_propagates_witness:
  "is_packages_file ''r/u/i/dists/d/c/binary-b/Packages.xz'' \<and>
   lzma_decode missing_env ''garbage'' = None \<and>
   distributions wide_args = [''d'', ''d2''] \<and> components wide_args = [''c'', ''c2''] \<and>
   architectures wide_args = [''a'', ''b''] \<and>
   outcome (mirror_repository missing_env wide_args (world_with half_broken_index)
              fresh_downloader) = Some DecodeError \<and>
   map fst (submitted (mirror_repository missing_env wide_args (world_with half_broken_index)
                         fresh_downloader)) =
     [''p://u/i/dists/d/InRelease'', ''p://u/i/dists/d/Release'', ''p://u/i/dists/d/Release.gpg'',
      ''p://u/i/dists/d/c/Contents-a.gz'', ''p://u/i/pool/x.deb'',
      ''p://u/i/dists/d/c/Contents-b.gz'']"
proof -
  let ?w = "world_with half_broken_index"
  let ?init = "\<lparr>the_world = ?w, the_downloader = fresh_downloader, link_list = [], futures = []\<rparr>"
  let ?stc = "?init\<lparr>futures := futures ?init @ release_tasks wide_args ''d''\<rparr>"
  let ?s = "sync_dir missing_env wide_args (dist_path wide_args ''d'' @ ''/'' @ ''c'' @ ''/source/'')
              (sync_dir missing_env wide_args (dist_path wide_args ''d'' @ ''/'' @ ''c'' @ ''/i18n/'') ?stc)"
  let ?st = "snd (mirror_archs missing_env wide_args ''d'' ''c'' [''a''] ?s)"
  let ?f = "fs (the_world (arch_synced missing_env wide_args ''d'' ''c'' ''b'' ?st))"
  have r1: "distributions wide_args = [] @ ''d'' # [''d2'']" by (simp add: wide_args_def small_args_def)
  have r2: "components wide_args = [] @ ''c'' # [''c2'']" by (simp add: wide_args_def small_args_def)
  have r3: "architectures wide_args = [''a''] @ ''b'' # []" by (simp add: wide_args_def small_args_def)
  have p1: "mirror_distributions missing_env wide_args [] ?init = (None, ?init)" by simp
  have p2: "mirror_components missing_env wide_args ''d'' [] ?stc = (None, ?stc)" by simp
  have "fst (mirror_archs missing_env wide_args ''d'' ''c'' [''a''] ?s) = None" by code_simp
  then have p3: "mirror_archs missing_env wide_args ''d'' ''c'' [''a''] ?s = (None, ?st)"
    by (metis prod.collapse)
  have h1: "?f = fs (the_world (arch_synced missing_env wide_args ''d'' ''c'' ''b'' ?st))"
    by (rule refl)
  have h2: "list_files_in_folder ?f (save_path wide_args ''d'' ''c'' ''b'') =
              [] @ ''r/u/i/dists/d/c/binary-b/Packages.xz'' # []"
    by code_simp
  have h3: "\<not> list_ex is_packages_file []" by simp
  have h4: "is_packages_file ''r/u/i/dists/d/c/binary-b/Packages.xz''" by code_simp
  have h5: "read_file ?f ''r/u/i/dists/d/c/binary-b/Packages.xz'' = Some ''garbage''"
    by code_simp
  have h6: "(if endswith ''r/u/i/dists/d/c/binary-b/Packages.xz'' ''.xz''
             then lzma_decode missing_env ''garbage''
             else if endswith ''r/u/i/dists/d/c/binary-b/Packages.xz'' ''.gz''
             then gzip_decode missing_env ''garbage''
             else text_decode missing_env ''garbage'') = None"
    by code_simp
  have h7: "lzma_decode missing_env ''garbage'' = None" by code_simp
  have fu: "map fst (futures ?st @ [contents_task wide_args ''d'' ''c'' ''b'']) =
     [''p://u/i/dists/d/InRelease'', ''p://u/i/dists/d/Release'', ''p://u/i/dists/d/Release.gpg'',
      ''p://u/i/dists/d/c/Contents-a.gz'', ''p://u/i/pool/x.deb'',
      ''p://u/i/dists/d/c/Contents-b.gz'']"
    by code_simp
  have ar: "distributions wide_args = [''d'', ''d2''] \<and> components wide_args = [''c'', ''c2''] \<and>
   architectures wide_args = [''a'', ''b'']"
    by (simp add: wide_args_def small_args_def)
  note main = decode_error_propagates[OF r1 r2 r3 p1 p2 p3 h1 h2 h3 h4 h5 h6]
  have out: "outcome (mirror_repository missing_env wide_args ?w fresh_downloader) = Some DecodeError"
    using main by blast
  have "submitted (mirror_repository missing_env wide_args ?w fresh_downloader) =
           futures ?st @ [contents_task wide_args ''d'' ''c'' ''b'']"
    using main by blast
  then have sub: "map fst (submitted (mirror_repository missing_env wide_args ?w fresh_downloader)) =
     [''p://u/i/dists/d/InRelease'', ''p://u/i/dists/d/Release'', ''p://u/i/dists/d/Release.gpg'',
      ''p://u/i/dists/d/c/Contents-a.gz'', ''p://u/i/pool/x.deb'',
      ''p://u/i/dists/d/c/Contents-b.gz'']"
    using fu by (simp only:)
  show ?thesis using h4 h7 ar out sub by blast
qed

theorem prune_same_paths_witness:
  "(\<forall>p t g. same_index resync_env one_arch_args (snd (wget resync_env p t g))
              (fs (world_with index_with_filename))) \<and>
   files (snd (wget resync_env ''r/u'' ''p://u/i/dists/d/c/i18n/'' (fs (world_with [])))) =
     index_with_filename \<and>
   remove_distributions resync_env one_arch_args (fs (world_with index_with_filename))
     (distributions one_arch_args) [] = Inr [''r/u/i/pool/x.deb''] \<and>
   package_destinations (submitted (mirror_repository resync_env one_arch_args
     (world_with index_with_filename) fresh_downloader)) = [''r/u/i/pool/x.deb'']"
proof -
  have h: "\<forall>p t g. same_index resync_env one_arch_args g (fs (world_with index_with_filename)) \<longrightarrow>
            same_index resync_env one_arch_args (snd (wget resync_env p t g))
              (fs (world_with index_with_filename))"
    by (simp add: resync_env_def same_index_def)
  have b: "files (snd (wget resync_env ''r/u'' ''p://u/i/dists/d/c/i18n/'' (fs (world_with [])))) =
     index_with_filename"
    by (simp add: resync_env_def world_with_def)
  have r: "remove_distributions resync_env one_arch_args (fs (world_with index_with_filename))
     (distributions one_arch_args) [] = Inr [''r/u/i/pool/x.deb'']"
    by code_simp
  have a: "\<forall>p t g. same_index resync_env one_arch_args (snd (wget resync_env p t g))
              (fs (world_with index_with_filename))"
    by (simp add: resync_env_def same_index_def)
  show ?thesis
    using a b r prune_same_paths[OF h, of fresh_downloader "''n''"]
    by simp
qed

theorem cancelled_changes_nothing_witness:
  "read_answer ''no'' \<noteq> ''y'' \<and>
   snd (remove_repository missing_env one_arch_args ''no'' (world_with index_with_filename)) =
     world_with index_with_filename"
proof -
  have h: "read_answer ''no'' \<noteq> ''y''" by code_simp
  show ?thesis using h cancelled_changes_nothing[OF h] by simp
qed

text \<open>
  Claim C1. A directory without a package index should contribute no package task and leave
  the run to complete. In the code \<open>find_and_extract_packages\<close> then returns \<open>None\<close>, against
  its own description, taking the length of that raises \<open>TypeError\<close>, and the run ends with
  this error: with an empty local tree the run ends with \<open>TypeError\<close> at the first architecture.
\<close>

theorem no_index_file_aborts_run:
  "list_files_in_folder (fs (world_with [])) (save_path small_args ''d'' ''c'' ''a'') = [] \<and>
   find_and_extract_packages missing_env (fs (world_with [])) [] = Inr None \<and>
   outcome (mirror_repository missing_env small_args (world_with []) fresh_downloader) =
     Some TypeError"
  by code_simp

end
